theory Spec2Isabelle
  imports Complex_Main "HOL-Library.Stream"
begin

section \<open>PM2.5 concentration and AQI computation (aqi\_calculator.py)\<close>

text \<open>
  The two numeric functions of this module are modelled twice.

  The first model is exact arithmetic: Python numbers are reals, \<open>+\<close>, \<open>-\<close>, \<open>*\<close> and
  \<open>/\<close> are the field operations, and nothing is rounded, overflows or underflows. It is
  the arithmetic the specification reasons in, and it agrees with the source wherever the
  rounding of doubles does not change a comparison or a tie.

  The second model (section \<open>The calculator on IEEE doubles\<close>) is the arithmetic the
  source runs on: every operation rounds its exact result to the nearest double, ties to
  even, overflows to an infinity and underflows gradually to zero; \<open>math.trunc\<close> and
  \<open>round\<close> raise on an infinity or a NaN. Statements about every input, the
  extremes of the double range included, are made on the second model.

  Integer results (\<open>math.trunc\<close>, \<open>round\<close>, the index bounds of the breakpoint table)
  are \<open>int\<close>. Exceptions are values of the result type. The \<open>print\<close> calls of the source
  write to standard output only and are left out.
\<close>

datatype py_error = ZeroDivisionError | OverflowError | ValueError

definition py_truediv :: "real \<Rightarrow> real \<Rightarrow> py_error + real" where
  "py_truediv a b = (if b = 0 then Inl ZeroDivisionError else Inr (a / b))"

text \<open>\<open>math.trunc\<close>: the integer part, rounding toward zero.\<close>

definition math_trunc :: "real \<Rightarrow> int" where
  "math_trunc x = (if 0 \<le> x then \<lfloor>x\<rfloor> else \<lceil>x\<rceil>)"

text \<open>The built-in \<open>round\<close> with one argument: nearest integer, ties to the even one.\<close>

definition py_round :: "real \<Rightarrow> int" where
  "py_round x =
     (let f = \<lfloor>x\<rfloor>; d = x - of_int f
      in if d < 1 / 2 then f
         else if 1 / 2 < d then f + 1
         else if even f then f else f + 1)"

subsection \<open>calculate\_pm25\_concentration\<close>

text \<open>
  The guard returns 0 before anything is divided. \<open>volume_l / 1000\<close> divides by a
  non-zero literal; \<open>mass_diff_mg / volume_m3\<close> is the one division that can raise.
\<close>

definition calculate_pm25_concentration ::
  "real \<Rightarrow> real \<Rightarrow> real \<Rightarrow> real \<Rightarrow> real \<Rightarrow> py_error + real" where
  "calculate_pm25_concentration mass_initial mass_final flow_rate time_start time_stop =
     (if flow_rate \<le> 0 \<or> time_stop \<le> time_start then Inr 0
      else
        let mass_diff_mg = mass_final - mass_initial;
            volume_l = flow_rate * (time_stop - time_start);
            volume_m3 = volume_l / 1000
        in case py_truediv mass_diff_mg volume_m3 of
             Inl e \<Rightarrow> Inl e
           | Inr concentration_mg_m3 \<Rightarrow>
               let concentration_ug_m3 = concentration_mg_m3 * 1000
               in Inr concentration_ug_m3)"

subsection \<open>get\_aqi\_breakpoints and calculate\_aqi\<close>

text \<open>
  The dictionary literal keeps its insertion order, and \<open>calculate_aqi\<close> iterates over
  \<open>items()\<close> in that order, so the table is an association list of
  \<open>((bp_low, bp_high), (i_low, i_high))\<close>.
\<close>

definition get_aqi_breakpoints :: "((real \<times> real) \<times> (int \<times> int)) list" where
  "get_aqi_breakpoints =
     [((0.0, 12.0), (0, 50)),
      ((12.1, 35.4), (51, 100)),
      ((35.5, 55.4), (101, 150)),
      ((55.5, 150.4), (151, 200)),
      ((150.5, 250.4), (201, 300)),
      ((250.5, 350.4), (301, 400)),
      ((350.5, 500.4), (401, 500))]"

text \<open>
  The \<open>for\<close> loop of \<open>calculate_aqi\<close>: the first row whose interval holds \<open>c\<close> returns
  the rounded interpolation; \<open>Inr None\<close> is the loop running off the end of the table.
\<close>

fun aqi_scan ::
  "((real \<times> real) \<times> (int \<times> int)) list \<Rightarrow> real \<Rightarrow> py_error + int option" where
  "aqi_scan [] c = Inr None"
| "aqi_scan (((bp_low, bp_high), (i_low, i_high)) # rest) c =
     (if bp_low \<le> c \<and> c \<le> bp_high then
        (case py_truediv (of_int (i_high - i_low)) (bp_high - bp_low) of
           Inl e \<Rightarrow> Inl e
         | Inr slope \<Rightarrow>
             let aqi = slope * (c - bp_low) + of_int i_low;
                 calculated_aqi = py_round aqi
             in Inr (Some calculated_aqi))
      else aqi_scan rest c)"

definition calculate_aqi :: "real \<Rightarrow> py_error + int" where
  "calculate_aqi pm25_concentration =
     (let breakpoints = get_aqi_breakpoints;
          c = of_int (math_trunc (pm25_concentration * 10)) / 10
      in case aqi_scan breakpoints c of
           Inl e \<Rightarrow> Inl e
         | Inr (Some calculated_aqi) \<Rightarrow> Inr calculated_aqi
         | Inr None \<Rightarrow> if c > 500.4 then Inr 500 else Inr 0)"

subsection \<open>get\_aqi\_category (aqi\_calculator.py)\<close>

text \<open>The result is the label and the RGBA colour tuple.\<close>

definition get_aqi_category :: "int \<Rightarrow> string \<times> (real \<times> real \<times> real \<times> real)" where
  "get_aqi_category aqi =
     (if 0 \<le> aqi \<and> aqi \<le> 50 then (''Good'', (0, 1, 0, 1))
      else if 51 \<le> aqi \<and> aqi \<le> 100 then (''Moderate'', (1, 1, 0, 1))
      else if 101 \<le> aqi \<and> aqi \<le> 150 then
        (''Unhealthy for Sensitive Groups'', (1, 0.5, 0, 1))
      else if 151 \<le> aqi \<and> aqi \<le> 200 then (''Unhealthy'', (1, 0, 0, 1))
      else if 201 \<le> aqi \<and> aqi \<le> 300 then (''Very Unhealthy'', (0.5, 0, 0.5, 1))
      else (''Hazardous'', (0.5, 0, 0.1, 1)))"

section \<open>The calculator on IEEE doubles\<close>

subsection \<open>Rounding to the nearest double\<close>

text \<open>
  A binary64 number has 53 significant bits and an exponent between \<open>-1022\<close> and
  \<open>1023\<close>. \<open>float_exponent x\<close> is the exponent of the binade of \<open>x\<close>: the largest \<open>e\<close>
  with \<open>2 powi e \<le> \<bar>x\<bar>\<close>, but at least \<open>-1022\<close> (below that the numbers are subnormal
  and equally spaced) and at most 1024 (beyond the largest double). It is found by
  searching upwards from \<open>-1022\<close>. \<open>ulp x\<close> is the spacing of the doubles in that binade,
  and \<open>rnd x\<close> is the multiple of \<open>ulp x\<close> nearest to \<open>x\<close>, ties to the even multiple:
  round-to-nearest-even, before overflow is looked at.
\<close>

fun expo_search :: "nat \<Rightarrow> int \<Rightarrow> real \<Rightarrow> int" where
  "expo_search 0 e a = e"
| "expo_search (Suc n) e a = (if 2 powi (e + 1) \<le> a then expo_search n (e + 1) a else e)"

definition float_exponent :: "real \<Rightarrow> int" where
  "float_exponent x = expo_search 2046 (- 1022) \<bar>x\<bar>"

definition ulp :: "real \<Rightarrow> real" where
  "ulp x = 2 powi (float_exponent x - 52)"

definition rnd :: "real \<Rightarrow> real" where
  "rnd x = of_int (py_round (x / ulp x)) * ulp x"

subsection \<open>Python floats\<close>

text \<open>
  A float is a finite double, an infinity or a NaN. The two zeros are one value: the
  source only compares, truncates and rounds, and none of these sees the sign of a zero.
  \<open>DBL_MAX\<close> is the largest finite double and \<open>DBL_TRUE_MIN\<close> the smallest positive
  one (\<open>5e-324\<close>). \<open>fl x\<close> is the float an operation returns when its exact result is
  \<open>x\<close>: the rounded value, or an infinity when the rounded value is beyond \<open>DBL_MAX\<close>.
  \<open>lit x\<close> is the float a decimal literal \<open>x\<close> of the source denotes.
\<close>

datatype pyfloat = Finite real | PosInf | NegInf | NaN

definition DBL_MAX :: real where
  "DBL_MAX = (2 ^ 53 - 1) * 2 powi 971"

definition DBL_TRUE_MIN :: real where
  "DBL_TRUE_MIN = 2 powi (- 1074)"

definition fl :: "real \<Rightarrow> pyfloat" where
  "fl x = (let r = rnd x
           in if DBL_MAX < r then PosInf else if r < - DBL_MAX then NegInf else Finite r)"

definition lit :: "real \<Rightarrow> pyfloat" where
  "lit x = fl x"

text \<open>Small integers convert to floats exactly (\<open>0\<close>, \<open>10\<close>, \<open>1000\<close>, the index bounds).\<close>

definition float_of_int :: "int \<Rightarrow> pyfloat" where
  "float_of_int n = Finite (of_int n)"

text \<open>The infinity with the sign of \<open>s\<close>; a zero \<open>s\<close> gives NaN (\<open>inf * 0\<close>).\<close>

definition signed_inf :: "real \<Rightarrow> pyfloat" where
  "signed_inf s = (if 0 < s then PosInf else if s < 0 then NegInf else NaN)"

fun fneg :: "pyfloat \<Rightarrow> pyfloat" where
  "fneg (Finite x) = Finite (- x)"
| "fneg PosInf = NegInf"
| "fneg NegInf = PosInf"
| "fneg NaN = NaN"

fun fadd :: "pyfloat \<Rightarrow> pyfloat \<Rightarrow> pyfloat" where
  "fadd (Finite x) (Finite y) = fl (x + y)"
| "fadd NaN b = NaN"
| "fadd a NaN = NaN"
| "fadd PosInf NegInf = NaN"
| "fadd NegInf PosInf = NaN"
| "fadd PosInf b = PosInf"
| "fadd a PosInf = PosInf"
| "fadd NegInf b = NegInf"
| "fadd a NegInf = NegInf"

definition fsub :: "pyfloat \<Rightarrow> pyfloat \<Rightarrow> pyfloat" where
  "fsub a b = fadd a (fneg b)"

fun fmul :: "pyfloat \<Rightarrow> pyfloat \<Rightarrow> pyfloat" where
  "fmul (Finite x) (Finite y) = fl (x * y)"
| "fmul NaN b = NaN"
| "fmul a NaN = NaN"
| "fmul (Finite x) PosInf = signed_inf x"
| "fmul (Finite x) NegInf = signed_inf (- x)"
| "fmul PosInf (Finite y) = signed_inf y"
| "fmul NegInf (Finite y) = signed_inf (- y)"
| "fmul PosInf PosInf = PosInf"
| "fmul NegInf NegInf = PosInf"
| "fmul PosInf NegInf = NegInf"
| "fmul NegInf PosInf = NegInf"

text \<open>
  True division of floats raises \<open>ZeroDivisionError\<close> on a zero divisor, whatever the
  dividend; otherwise it follows IEEE 754.
\<close>

fun fdiv :: "pyfloat \<Rightarrow> pyfloat \<Rightarrow> py_error + pyfloat" where
  "fdiv a (Finite y) =
     (if y = 0 then Inl ZeroDivisionError
      else case a of
             Finite x \<Rightarrow> Inr (fl (x / y))
           | PosInf \<Rightarrow> Inr (signed_inf y)
           | NegInf \<Rightarrow> Inr (signed_inf (- y))
           | NaN \<Rightarrow> Inr NaN)"
| "fdiv NaN b = Inr NaN"
| "fdiv a NaN = Inr NaN"
| "fdiv (Finite x) b = Inr (Finite 0)"
| "fdiv a b = Inr NaN"

text \<open>Comparisons: every comparison with a NaN is false.\<close>

fun fle :: "pyfloat \<Rightarrow> pyfloat \<Rightarrow> bool" where
  "fle (Finite x) (Finite y) = (x \<le> y)"
| "fle NaN b = False"
| "fle a NaN = False"
| "fle NegInf b = True"
| "fle a PosInf = True"
| "fle a b = False"

fun flt :: "pyfloat \<Rightarrow> pyfloat \<Rightarrow> bool" where
  "flt (Finite x) (Finite y) = (x < y)"
| "flt NaN b = False"
| "flt a NaN = False"
| "flt NegInf NegInf = False"
| "flt PosInf PosInf = False"
| "flt NegInf b = True"
| "flt a PosInf = True"
| "flt a b = False"

text \<open>
  \<open>math.trunc\<close> and \<open>round\<close> of a float: \<open>OverflowError\<close> on an infinity,
  \<open>ValueError\<close> on a NaN.
\<close>

fun math_trunc_f64 :: "pyfloat \<Rightarrow> py_error + int" where
  "math_trunc_f64 (Finite x) = Inr (math_trunc x)"
| "math_trunc_f64 NaN = Inl ValueError"
| "math_trunc_f64 a = Inl OverflowError"

fun round_f64 :: "pyfloat \<Rightarrow> py_error + int" where
  "round_f64 (Finite x) = Inr (py_round x)"
| "round_f64 NaN = Inl ValueError"
| "round_f64 a = Inl OverflowError"

text \<open>
  True division of two integers: the correctly rounded quotient, \<open>OverflowError\<close> when it
  is too large for a float.
\<close>

definition int_truediv :: "int \<Rightarrow> int \<Rightarrow> py_error + pyfloat" where
  "int_truediv a b =
     (if b = 0 then Inl ZeroDivisionError
      else case fl (of_int a / of_int b) of
             Finite r \<Rightarrow> Inr (Finite r)
           | _ \<Rightarrow> Inl OverflowError)"

subsection \<open>calculate\_pm25\_concentration on doubles\<close>

text \<open>
  The arguments are floats, as \<open>main.py\<close> passes them. The guard compares with the
  integer 0 and returns the integer 0, which is the float zero here.
\<close>

definition calculate_pm25_concentration_f64 ::
  "pyfloat \<Rightarrow> pyfloat \<Rightarrow> pyfloat \<Rightarrow> pyfloat \<Rightarrow> pyfloat \<Rightarrow> py_error + pyfloat" where
  "calculate_pm25_concentration_f64 mass_initial mass_final flow_rate time_start time_stop =
     (if fle flow_rate (float_of_int 0) \<or> fle time_stop time_start then Inr (float_of_int 0)
      else
        let mass_diff_mg = fsub mass_final mass_initial;
            volume_l = fmul flow_rate (fsub time_stop time_start)
        in case fdiv volume_l (float_of_int 1000) of
             Inl e \<Rightarrow> Inl e
           | Inr volume_m3 \<Rightarrow>
               (case fdiv mass_diff_mg volume_m3 of
                  Inl e \<Rightarrow> Inl e
                | Inr concentration_mg_m3 \<Rightarrow>
                    let concentration_ug_m3 = fmul concentration_mg_m3 (float_of_int 1000)
                    in Inr concentration_ug_m3))"

subsection \<open>get\_aqi\_breakpoints and calculate\_aqi on doubles\<close>

definition get_aqi_breakpoints_f64 :: "((pyfloat \<times> pyfloat) \<times> (int \<times> int)) list" where
  "get_aqi_breakpoints_f64 =
     [((lit 0.0, lit 12.0), (0, 50)),
      ((lit 12.1, lit 35.4), (51, 100)),
      ((lit 35.5, lit 55.4), (101, 150)),
      ((lit 55.5, lit 150.4), (151, 200)),
      ((lit 150.5, lit 250.4), (201, 300)),
      ((lit 250.5, lit 350.4), (301, 400)),
      ((lit 350.5, lit 500.4), (401, 500))]"

fun aqi_scan_f64 ::
  "((pyfloat \<times> pyfloat) \<times> (int \<times> int)) list \<Rightarrow> pyfloat \<Rightarrow> py_error + int option" where
  "aqi_scan_f64 [] c = Inr None"
| "aqi_scan_f64 (((bp_low, bp_high), (i_low, i_high)) # rest) c =
     (if fle bp_low c \<and> fle c bp_high then
        (case fdiv (float_of_int (i_high - i_low)) (fsub bp_high bp_low) of
           Inl e \<Rightarrow> Inl e
         | Inr slope \<Rightarrow>
             let aqi = fadd (fmul slope (fsub c bp_low)) (float_of_int i_low)
             in case round_f64 aqi of
                  Inl e \<Rightarrow> Inl e
                | Inr calculated_aqi \<Rightarrow> Inr (Some calculated_aqi))
      else aqi_scan_f64 rest c)"

text \<open>
  \<open>c = math.trunc(pm25_concentration * 10) / 10\<close>: a float product, its truncation to
  an integer, and the true division of that integer by the integer 10.
\<close>

definition calculate_aqi_f64 :: "pyfloat \<Rightarrow> py_error + int" where
  "calculate_aqi_f64 pm25_concentration =
     (let breakpoints = get_aqi_breakpoints_f64
      in case math_trunc_f64 (fmul pm25_concentration (float_of_int 10)) of
           Inl e \<Rightarrow> Inl e
         | Inr k \<Rightarrow>
             (case int_truediv k 10 of
                Inl e \<Rightarrow> Inl e
              | Inr c \<Rightarrow>
                  (case aqi_scan_f64 breakpoints c of
                     Inl e \<Rightarrow> Inl e
                   | Inr (Some calculated_aqi) \<Rightarrow> Inr calculated_aqi
                   | Inr None \<Rightarrow> if flt (lit 500.4) c then Inr 500 else Inr 0)))"

section \<open>Report generator (report\_generator.py)\<close>

subsection \<open>get\_aqi\_category (report\_generator.py)\<close>

definition rg_get_aqi_category :: "int \<Rightarrow> string" where
  "rg_get_aqi_category aqi_value =
     (if aqi_value \<le> 50 then ''Good''
      else if aqi_value \<le> 100 then ''Satisfactory''
      else if aqi_value \<le> 150 then ''Moderate''
      else if aqi_value \<le> 200 then ''Unhealthy for Sensitive Groups''
      else if aqi_value \<le> 300 then ''Unhealthy''
      else if aqi_value \<le> 400 then ''Very Unhealthy''
      else ''Hazardous'')"

subsection \<open>Dates, as generate\_monthly\_data uses them\<close>

text \<open>
  \<open>datetime.now()\<close> is an input of the model. The loop compares \<open>current_date\<close> with
  \<open>today\<close> and both carry the same time of day (\<open>first_day\<close> is
  \<open>today.replace(day=1)\<close>), so only the calendar date matters and a date is its year,
  month and day. The year is not bounded by \<open>MAXYEAR\<close>.
\<close>

record pydate =
  year :: nat
  month :: nat
  day :: nat

text \<open>
  \<open>date.weekday()\<close>, Monday is 0, computed as the standard library does: from the
  proleptic Gregorian ordinal of the date.
\<close>

definition is_leap :: "nat \<Rightarrow> bool" where
  "is_leap y = (y mod 4 = 0 \<and> (y mod 100 \<noteq> 0 \<or> y mod 400 = 0))"

definition DAYS_BEFORE_MONTH :: "nat list" where
  "DAYS_BEFORE_MONTH = [0, 0, 31, 59, 90, 120, 151, 181, 212, 243, 273, 304, 334]"

definition days_before_year :: "nat \<Rightarrow> nat" where
  "days_before_year yr = (let y = yr - 1 in y * 365 + y div 4 - y div 100 + y div 400)"

definition days_before_month :: "nat \<Rightarrow> nat \<Rightarrow> nat" where
  "days_before_month y m = DAYS_BEFORE_MONTH ! m + (if 2 < m \<and> is_leap y then 1 else 0)"

definition toordinal :: "pydate \<Rightarrow> nat" where
  "toordinal d = days_before_year (year d) + days_before_month (year d) (month d) + day d"

definition weekday :: "pydate \<Rightarrow> nat" where
  "weekday d = (toordinal d + 6) mod 7"

text \<open>\<open>strftime("%m/%d/%Y")\<close>: two digits, two digits, four digits.\<close>

definition digit_char :: "nat \<Rightarrow> char" where
  "digit_char d = ''0123456789'' ! (d mod 10)"

definition two_digits :: "nat \<Rightarrow> string" where
  "two_digits v = [digit_char (v div 10), digit_char v]"

definition four_digits :: "nat \<Rightarrow> string" where
  "four_digits v =
     [digit_char (v div 1000), digit_char (v div 100), digit_char (v div 10), digit_char v]"

definition strftime_mdY :: "pydate \<Rightarrow> string" where
  "strftime_mdY d =
     two_digits (month d) @ ''/'' @ two_digits (day d) @ ''/'' @ four_digits (year d)"

subsection \<open>The random source\<close>

text \<open>
  The state of the \<open>random\<close> module is a stream of raw draws; any stream is a possible
  outcome. \<open>random.randint(a, b)\<close> consumes one draw and returns an integer \<open>N\<close> with
  \<open>a \<le> N \<le> b\<close>; every such \<open>N\<close> is the result for some draw.
\<close>

definition randint :: "int \<Rightarrow> int \<Rightarrow> nat stream \<Rightarrow> int \<times> nat stream" where
  "randint a b rs = (a + int (shd rs) mod (b - a + 1), stl rs)"

subsection \<open>generate\_monthly\_data\<close>

text \<open>
  The \<open>else\<close> branch of the loop body: the synthetic value of one day, from the
  previous day's value, the month and the weekday; it returns the clamped value and the
  random source after its draws.
\<close>

definition synthetic_aqi :: "pydate \<Rightarrow> int option \<Rightarrow> nat stream \<Rightarrow> int \<times> nat stream" where
  "synthetic_aqi current_date previous_aqi rs0 =
     (let (base_aqi, rs1) =
            (case previous_aqi of
               None \<Rightarrow> randint 40 120 rs0
             | Some p \<Rightarrow> (let (variation, rs) = randint (- 20) 20 rs0 in (p + variation, rs)));
          m = month current_date;
          (seasonal_adjustment, rs2) =
            (if m \<in> set [11, 12, 1, 2] then randint 10 25 rs1
             else if m \<in> set [5, 6, 7, 8] then randint (- 15) 5 rs1
             else (0, rs1));
          base_aqi = base_aqi + seasonal_adjustment;
          wd = weekday current_date;
          (base_aqi, rs3) =
            (if wd < 5 then (let (r, rs) = randint 0 10 rs2 in (base_aqi + r, rs))
             else (let (r, rs) = randint 0 8 rs2 in (base_aqi - r, rs)));
          base_aqi = max 15 (min 250 base_aqi)
      in (base_aqi, rs3))"

text \<open>
  The \<open>while current_date <= today\<close> loop. \<open>current_date\<close> starts at day 1 of today's
  month and advances by one day, so while the condition holds it is day \<open>k\<close> of today's
  month and year, and the condition is \<open>k \<le> day today\<close>. The branch for today is taken
  when the dates are equal and \<open>current_aqi\<close> is not \<open>None\<close>.
\<close>

function monthly_loop ::
  "int option \<Rightarrow> pydate \<Rightarrow> nat \<Rightarrow> int option \<Rightarrow> nat stream \<Rightarrow> string list \<Rightarrow> int list
   \<Rightarrow> (string list \<times> int list) \<times> nat stream" where
  "monthly_loop current_aqi today k previous_aqi rs dates aqi_values =
     (if k \<le> day today then
        let current_date = today\<lparr>day := k\<rparr>;
            dates = dates @ [strftime_mdY current_date]
        in case (if k = day today then current_aqi else None) of
             Some a \<Rightarrow>
               monthly_loop current_aqi today (Suc k) (Some a) rs dates (aqi_values @ [a])
           | None \<Rightarrow>
               let (base_aqi, rs') = synthetic_aqi current_date previous_aqi rs
               in monthly_loop current_aqi today (Suc k) (Some base_aqi) rs' dates
                    (aqi_values @ [base_aqi])
      else ((dates, aqi_values), rs))"
  by pat_completeness auto
termination
  by (relation "measure (\<lambda>(current_aqi, today, k, rest). Suc (day today) - k)") auto

declare monthly_loop.simps [simp del]

text \<open>The result is \<open>(dates, aqi_values)\<close> and the random source left after the call.\<close>

definition generate_monthly_data ::
  "int option \<Rightarrow> pydate \<Rightarrow> nat stream \<Rightarrow> (string list \<times> int list) \<times> nat stream" where
  "generate_monthly_data current_aqi today rs = monthly_loop current_aqi today 1 None rs [] []"

section \<open>Properties of the concentration calculator\<close>

text \<open>
  Claim C3: whenever \<open>flow_rate \<le> 0\<close> or \<open>stop_time \<le> start_time\<close>,
  \<open>calculate_pm25_concentration\<close> returns 0 and raises nothing: the result is the
  value \<open>Inr 0\<close>, never \<open>Inl\<close> of an error.
\<close>

theorem calculate_pm25_concentration_degenerate:
  assumes "flow_rate \<le> 0 \<or> time_stop \<le> time_start"
  shows "calculate_pm25_concentration mass_initial mass_final flow_rate time_start time_stop
           = Inr 0"
  using assms by (simp add: calculate_pm25_concentration_def)

theorem calculate_pm25_concentration_degenerate_witness:
  "((0::real) \<le> 0 \<or> (5::real) \<le> 0) \<and>
   calculate_pm25_concentration 100 102.5 0 0 5 = Inr 0 \<and>
   ((167 / 10 :: real) \<le> 0 \<or> (30::real) \<le> 30) \<and>
   calculate_pm25_concentration 100 102.5 16.7 30 30 = Inr 0"
  using calculate_pm25_concentration_degenerate
          [where flow_rate = 0 and time_start = 0 and time_stop = 5
             and mass_initial = 100 and mass_final = "102.5"]
        calculate_pm25_concentration_degenerate
          [where flow_rate = "16.7" and time_start = 30 and time_stop = 30
             and mass_initial = 100 and mass_final = "102.5"]
  by simp

section \<open>Properties of the AQI mapper in exact arithmetic\<close>

subsection \<open>Rounding and truncation\<close>

lemma py_round_of_int: "py_round (of_int n) = n"
  by (simp add: py_round_def)

lemma py_round_ge_floor: "\<lfloor>x\<rfloor> \<le> py_round x"
  by (simp add: py_round_def Let_def)

lemma py_round_le_floor_Suc: "py_round x \<le> \<lfloor>x\<rfloor> + 1"
  by (simp add: py_round_def Let_def)

lemma py_round_lower:
  assumes "of_int a \<le> x"
  shows "a \<le> py_round x"
proof -
  from assms have "a \<le> \<lfloor>x\<rfloor>" by (simp add: le_floor_iff)
  with py_round_ge_floor [of x] show ?thesis by simp
qed

lemma py_round_upper:
  assumes "x \<le> of_int b"
  shows "py_round x \<le> b"
proof (cases "x = of_int b")
  case True
  then show ?thesis by (simp add: py_round_of_int)
next
  case False
  with assms have "x < of_int b" by simp
  then have "\<lfloor>x\<rfloor> < b" by (simp add: floor_less_iff)
  with py_round_le_floor_Suc [of x] show ?thesis by simp
qed

lemma py_round_mono:
  assumes "x \<le> y"
  shows "py_round x \<le> py_round y"
proof (cases "\<lfloor>x\<rfloor> = \<lfloor>y\<rfloor>")
  case True
  with assms show ?thesis
    by (auto simp: py_round_def Let_def)
next
  case False
  with assms have "\<lfloor>x\<rfloor> < \<lfloor>y\<rfloor>"
    using floor_mono [of x y] by simp
  with py_round_le_floor_Suc [of x] py_round_ge_floor [of y] show ?thesis
    by simp
qed

lemma math_trunc_mono:
  assumes "x \<le> y"
  shows "math_trunc x \<le> math_trunc y"
proof (cases "0 \<le> x")
  case True
  with assms show ?thesis by (simp add: math_trunc_def floor_mono)
next
  case neg: False
  show ?thesis
  proof (cases "0 \<le> y")
    case True
    from neg have "\<lceil>x\<rceil> \<le> 0" by (simp add: ceiling_le_iff)
    moreover from True have "0 \<le> \<lfloor>y\<rfloor>" by simp
    ultimately have "\<lceil>x\<rceil> \<le> \<lfloor>y\<rfloor>" by (rule order_trans)
    moreover have "math_trunc x = \<lceil>x\<rceil>" using neg by (simp add: math_trunc_def)
    moreover have "math_trunc y = \<lfloor>y\<rfloor>" using True by (simp add: math_trunc_def)
    ultimately show ?thesis by (simp only:)
  next
    case False
    with neg assms show ?thesis by (simp add: math_trunc_def ceiling_mono)
  qed
qed

lemma aqi_scan_first:
  "0 \<le> ct \<Longrightarrow> ct \<le> 12 \<Longrightarrow>
   aqi_scan get_aqi_breakpoints ct = Inr (Some (py_round (50 / 12 * ct)))"
  by (simp add: get_aqi_breakpoints_def py_truediv_def)

text \<open>
  Claim C4: at the edges of the first breakpoint rows, \<open>calculate_aqi 12.0 = 50\<close>,
  \<open>calculate_aqi 12.1 = 51\<close>, \<open>calculate_aqi 35.4 = 100\<close> and
  \<open>calculate_aqi 35.5 = 101\<close>.
\<close>

theorem calculate_aqi_boundaries:
  "calculate_aqi 12.0 = Inr 50 \<and> calculate_aqi 12.1 = Inr 51 \<and>
   calculate_aqi 35.4 = Inr 100 \<and> calculate_aqi 35.5 = Inr 101"
  by (simp add: calculate_aqi_def get_aqi_breakpoints_def math_trunc_def py_truediv_def
      py_round_def Let_def)

lemma calculate_aqi_first_tier:
  assumes "0 \<le> c" and "c \<le> 12"
  shows "calculate_aqi c = Inr (py_round (50 / 12 * (of_int (math_trunc (c * 10)) / 10)))"
proof -
  let ?k = "math_trunc (c * 10)"
  from assms have "0 \<le> ?k" by (simp add: math_trunc_def)
  moreover from assms have "c * 10 \<le> 120" by simp
  then have "?k \<le> 120" using assms by (simp add: math_trunc_def floor_le_iff)
  ultimately have "(0::real) \<le> of_int ?k / 10" and "of_int ?k / 10 \<le> (12::real)"
    by simp_all
  then show ?thesis using aqi_scan_first by (simp add: calculate_aqi_def Let_def)
qed

text \<open>
  Claim C6: for \<open>c1\<close>, \<open>c2\<close> in \<open>[0, 12]\<close> the index is in \<open>[0, 50]\<close>, and
  \<open>c1 \<le> c2\<close> implies \<open>calculate_aqi c1 \<le> calculate_aqi c2\<close>.
\<close>

theorem calculate_aqi_first_tier_monotone:
  assumes "0 \<le> c1" and "c1 \<le> c2" and "c2 \<le> 12"
  shows "\<exists>a1 a2. calculate_aqi c1 = Inr a1 \<and> calculate_aqi c2 = Inr a2
           \<and> 0 \<le> a1 \<and> a1 \<le> 50 \<and> 0 \<le> a2 \<and> a2 \<le> 50 \<and> a1 \<le> a2"
proof -
  let ?t1 = "of_int (math_trunc (c1 * 10)) / 10 :: real"
  let ?t2 = "of_int (math_trunc (c2 * 10)) / 10 :: real"
  let ?a1 = "py_round (50 / 12 * ?t1)" and ?a2 = "py_round (50 / 12 * ?t2)"
  from assms have c1: "0 \<le> c1" "c1 \<le> 12" and c2: "0 \<le> c2" "c2 \<le> 12"
    by simp_all
  have r1: "calculate_aqi c1 = Inr ?a1" using c1 by (rule calculate_aqi_first_tier)
  have r2: "calculate_aqi c2 = Inr ?a2" using c2 by (rule calculate_aqi_first_tier)
  from assms have "math_trunc (c1 * 10) \<le> math_trunc (c2 * 10)"
    by (intro math_trunc_mono) simp
  then have "50 / 12 * ?t1 \<le> 50 / 12 * ?t2" by simp
  then have mono: "?a1 \<le> ?a2" by (rule py_round_mono)
  have "0 \<le> math_trunc (c1 * 10)" using c1 by (simp add: math_trunc_def)
  then have "of_int 0 \<le> 50 / 12 * ?t1" by simp
  then have lo: "0 \<le> ?a1" by (rule py_round_lower)
  have "c2 * 10 \<le> 120" using c2 by simp
  then have "math_trunc (c2 * 10) \<le> 120" using c2 by (simp add: math_trunc_def floor_le_iff)
  then have "50 / 12 * ?t2 \<le> of_int 50" by simp
  then have hi: "?a2 \<le> 50" by (rule py_round_upper)
  from r1 r2 mono lo hi show ?thesis by simp
qed

theorem calculate_aqi_first_tier_monotone_witness:
  "(0::real) \<le> 3.27 \<and> (3.27::real) \<le> 11.99 \<and> (11.99::real) \<le> 12 \<and>
   (\<exists>a1 a2. calculate_aqi 3.27 = Inr a1 \<and> calculate_aqi 11.99 = Inr a2
      \<and> 0 \<le> a1 \<and> a1 \<le> 50 \<and> 0 \<le> a2 \<and> a2 \<le> 50 \<and> a1 \<le> a2)"
  using calculate_aqi_first_tier_monotone [of "3.27" "11.99"]
  by simp

text \<open>
  Claim C5, as stated: for the worked example the mapper returns an index of 175, the
  rounding of \<open>151 + (103.9 - 55.5) / (150.4 - 55.5) * (200 - 151)\<close>. That
  interpolation is about 175.99, and \<open>round\<close> takes it to 176, which is what
  \<open>calculate_aqi\<close> returns.
\<close>

theorem calculate_aqi_worked_example_counterexample:
  "calculate_aqi 103.96 \<noteq> Inr 175 \<and>
   py_round (151 + (103.9 - 55.5) / (150.4 - 55.5) * (200 - 151)) \<noteq> 175"
  by (simp add: calculate_aqi_def get_aqi_breakpoints_def math_trunc_def py_truediv_def
      py_round_def Let_def)

text \<open>
  Claim C5, amended: \<open>calculate_pm25_concentration 100 102.5 16.7 0 1440\<close> returns
  \<open>2.5 / 24.048 * 1000\<close>, within 0.01 of 103.96; \<open>calculate_aqi 103.96\<close> truncates to
  103.9, takes the row \<open>[55.5, 150.4] \<rightarrow> [151, 200]\<close> and returns
  \<open>round (151 + (103.9 - 55.5) / (150.4 - 55.5) * (200 - 151)) = 176\<close>; the exact
  concentration maps to 176 as well.
\<close>

theorem calculate_aqi_worked_example:
  "calculate_pm25_concentration 100 102.5 16.7 0 1440 = Inr (2.5 / 24.048 * 1000) \<and>
   \<bar>2.5 / 24.048 * 1000 - 103.96 :: real\<bar> < 0.01 \<and>
   of_int (math_trunc (103.96 * 10)) / 10 = (103.9 :: real) \<and>
   aqi_scan (take 3 get_aqi_breakpoints) 103.9 = Inr None \<and>
   aqi_scan (drop 3 get_aqi_breakpoints) 103.9
     = Inr (Some (py_round (151 + (103.9 - 55.5) / (150.4 - 55.5) * (200 - 151)))) \<and>
   py_round (151 + (103.9 - 55.5) / (150.4 - 55.5) * (200 - 151)) = 176 \<and>
   calculate_aqi 103.96 = Inr 176 \<and>
   calculate_aqi (2.5 / 24.048 * 1000) = Inr 176"
  by (simp add: calculate_pm25_concentration_def calculate_aqi_def get_aqi_breakpoints_def
      math_trunc_def py_truediv_def py_round_def Let_def)

section \<open>Properties of the category tables\<close>

text \<open>
  Claim C9: the two category tables disagree on an index in \<open>[0, 500]\<close>. At 75 the
  calculator's table says Moderate and the report's says Satisfactory; at 350 the
  calculator's table (six tiers, Hazardous above 300) says Hazardous and the report's
  (seven tiers, Hazardous above 400) says Very Unhealthy.
\<close>

theorem get_aqi_category_tables_differ:
  "(\<exists>i. 0 \<le> i \<and> i \<le> 500 \<and> fst (get_aqi_category i) \<noteq> rg_get_aqi_category i) \<and>
   fst (get_aqi_category 75) = ''Moderate'' \<and> rg_get_aqi_category 75 = ''Satisfactory'' \<and>
   fst (get_aqi_category 350) = ''Hazardous'' \<and>
   rg_get_aqi_category 350 = ''Very Unhealthy'' \<and>
   rg_get_aqi_category 401 = ''Hazardous''"
proof -
  have "(0::int) \<le> 75 \<and> (75::int) \<le> 500
        \<and> fst (get_aqi_category 75) \<noteq> rg_get_aqi_category 75"
    by (simp add: get_aqi_category_def rg_get_aqi_category_def)
  then have "\<exists>i. 0 \<le> i \<and> i \<le> 500 \<and> fst (get_aqi_category i) \<noteq> rg_get_aqi_category i"
    by blast
  then show ?thesis
    by (simp add: get_aqi_category_def rg_get_aqi_category_def)
qed

text \<open>
  Claim C10: every index outside \<open>[0, 300]\<close>, every negative one included, falls
  through all five band tests of the calculator's \<open>get_aqi_category\<close> and gets the
  catch-all: Hazardous, maroon \<open>(0.5, 0, 0.1, 1)\<close>.
\<close>

theorem get_aqi_category_catch_all:
  assumes "aqi < 0 \<or> 300 < aqi"
  shows "get_aqi_category aqi = (''Hazardous'', (0.5, 0, 0.1, 1))"
  using assms by (auto simp: get_aqi_category_def)

theorem get_aqi_category_catch_all_witness:
  "((- 1 :: int) < 0 \<or> (300::int) < - 1) \<and>
   get_aqi_category (- 1) = (''Hazardous'', (0.5, 0, 0.1, 1)) \<and>
   ((301 :: int) < 0 \<or> (300::int) < 301) \<and>
   get_aqi_category 301 = (''Hazardous'', (0.5, 0, 0.1, 1))"
  using get_aqi_category_catch_all [of "- 1"] get_aqi_category_catch_all [of 301]
  by simp

section \<open>Properties of the synthetic series generator\<close>

text \<open>
  The loop equation, split by the branch that is taken: past today, at today with an
  anchor, and before today.
\<close>

lemma monthly_loop_done:
  "day today < k \<Longrightarrow>
   monthly_loop current_aqi today k previous_aqi rs dates aqi_values = ((dates, aqi_values), rs)"
  by (simp add: monthly_loop.simps)

lemma monthly_loop_anchor:
  "k = day today \<Longrightarrow>
   monthly_loop (Some a) today k previous_aqi rs dates aqi_values =
   monthly_loop (Some a) today (Suc k) (Some a) rs
     (dates @ [strftime_mdY (today\<lparr>day := k\<rparr>)]) (aqi_values @ [a])"
  by (subst monthly_loop.simps) (simp add: Let_def)

lemma monthly_loop_synthetic:
  "k < day today \<Longrightarrow>
   monthly_loop current_aqi today k previous_aqi rs dates aqi_values =
   monthly_loop current_aqi today (Suc k)
     (Some (fst (synthetic_aqi (today\<lparr>day := k\<rparr>) previous_aqi rs)))
     (snd (synthetic_aqi (today\<lparr>day := k\<rparr>) previous_aqi rs))
     (dates @ [strftime_mdY (today\<lparr>day := k\<rparr>)])
     (aqi_values @ [fst (synthetic_aqi (today\<lparr>day := k\<rparr>) previous_aqi rs)])"
  by (subst monthly_loop.simps) (simp add: Let_def split: prod.splits)

lemma synthetic_aqi_bounds:
  "15 \<le> fst (synthetic_aqi current_date previous_aqi rs)
   \<and> fst (synthetic_aqi current_date previous_aqi rs) \<le> 250"
  by (simp add: synthetic_aqi_def Let_def split: prod.splits)

lemma monthly_loop_anchored:
  assumes "k \<le> Suc (day today)"
  shows "\<exists>ws rs'.
           monthly_loop (Some a) today k previous_aqi rs dates aqi_values
             = ((dates @ map (\<lambda>j. strftime_mdY (today\<lparr>day := j\<rparr>)) [k..<Suc (day today)],
                 aqi_values @ ws), rs')
           \<and> length ws = Suc (day today) - k
           \<and> (k \<le> day today \<longrightarrow> last ws = a)
           \<and> (\<forall>v \<in> set (butlast ws). 15 \<le> v \<and> v \<le> 250)"
  using assms
proof (induction "Suc (day today) - k" arbitrary: k previous_aqi rs dates aqi_values)
  case 0
  then have "day today < k" by simp
  then show ?case by (simp add: monthly_loop_done)
next
  case (Suc m)
  then have k: "k \<le> day today" and m: "m = Suc (day today) - Suc k"
    by simp_all
  let ?d = "strftime_mdY (today\<lparr>day := k\<rparr>)"
  from k have upt: "[k..<Suc (day today)] = k # [Suc k..<Suc (day today)]"
    by (simp add: upt_conv_Cons)
  show ?case
  proof (cases "k = day today")
    case True
    then have "monthly_loop (Some a) today k previous_aqi rs dates aqi_values
        = monthly_loop (Some a) today (Suc k) (Some a) rs (dates @ [?d]) (aqi_values @ [a])"
      by (rule monthly_loop_anchor)
    also have "\<dots> = ((dates @ [?d], aqi_values @ [a]), rs)"
      using True by (simp add: monthly_loop_done)
    finally show ?thesis using True by (simp add: upt)
  next
    case False
    with k have lt: "k < day today" by simp
    let ?b = "fst (synthetic_aqi (today\<lparr>day := k\<rparr>) previous_aqi rs)"
    let ?rs = "snd (synthetic_aqi (today\<lparr>day := k\<rparr>) previous_aqi rs)"
    from lt have step: "monthly_loop (Some a) today k previous_aqi rs dates aqi_values
        = monthly_loop (Some a) today (Suc k) (Some ?b) ?rs (dates @ [?d]) (aqi_values @ [?b])"
      by (rule monthly_loop_synthetic)
    from lt have "Suc k \<le> Suc (day today)" by simp
    from Suc.hyps(1) [OF m this, of "Some ?b" ?rs "dates @ [?d]" "aqi_values @ [?b]"]
    obtain ws rs' where
      run: "monthly_loop (Some a) today (Suc k) (Some ?b) ?rs (dates @ [?d]) (aqi_values @ [?b])
          = (((dates @ [?d]) @ map (\<lambda>j. strftime_mdY (today\<lparr>day := j\<rparr>))
                [Suc k..<Suc (day today)], (aqi_values @ [?b]) @ ws), rs')"
      and len: "length ws = Suc (day today) - Suc k"
      and lst: "Suc k \<le> day today \<longrightarrow> last ws = a"
      and bnd: "\<forall>v \<in> set (butlast ws). 15 \<le> v \<and> v \<le> 250"
      by blast
    from len lt have ne: "ws \<noteq> []" by auto
    have "monthly_loop (Some a) today k previous_aqi rs dates aqi_values
        = ((dates @ map (\<lambda>j. strftime_mdY (today\<lparr>day := j\<rparr>)) [k..<Suc (day today)],
            aqi_values @ (?b # ws)), rs')"
      by (simp only: step run upt) simp
    moreover have "length (?b # ws) = Suc (day today) - k"
      using len lt by simp
    moreover have "last (?b # ws) = a"
      using lst lt ne by simp
    moreover have "\<forall>v \<in> set (butlast (?b # ws)). 15 \<le> v \<and> v \<le> 250"
      using bnd ne synthetic_aqi_bounds [of "today\<lparr>day := k\<rparr>" previous_aqi rs] by simp
    ultimately show ?thesis by blast
  qed
qed

text \<open>
  Claim C7: for every outcome of the random source, \<open>generate_monthly_data\<close> with anchor
  \<open>todayIndex\<close>, today being day \<open>n\<close> of its month, returns \<open>n\<close> dates and \<open>n\<close>
  values; the dates are days \<open>1, \<dots>, n\<close> of today's month in that order; the last value
  is \<open>todayIndex\<close>, and every earlier value is in \<open>[15, 250]\<close>.
\<close>

theorem generate_monthly_data_anchor:
  assumes "1 \<le> day today"
  shows "\<exists>dates aqi_values rs'.
           generate_monthly_data (Some todayIndex) today rs = ((dates, aqi_values), rs')
           \<and> length dates = day today \<and> length aqi_values = day today
           \<and> dates = map (\<lambda>k. strftime_mdY (today\<lparr>day := k\<rparr>)) [1..<Suc (day today)]
           \<and> last aqi_values = todayIndex
           \<and> (\<forall>v \<in> set (butlast aqi_values). 15 \<le> v \<and> v \<le> 250)"
proof -
  from assms have "1 \<le> Suc (day today)" by simp
  from monthly_loop_anchored [OF this, of todayIndex None rs "[]" "[]"] assms
  show ?thesis by (auto simp: generate_monthly_data_def)
qed

theorem generate_monthly_data_anchor_witness:
  "1 \<le> day \<lparr>year = 2026, month = 11, day = 5\<rparr> \<and>
   (\<exists>dates aqi_values rs'.
      generate_monthly_data (Some 80) \<lparr>year = 2026, month = 11, day = 5\<rparr>
        (siterate (\<lambda>n. (n * 37 + 11) mod 101) 3) = ((dates, aqi_values), rs')
      \<and> length dates = 5 \<and> length aqi_values = 5
      \<and> dates = map (\<lambda>k. strftime_mdY \<lparr>year = 2026, month = 11, day = k\<rparr>) [1..<Suc 5]
      \<and> last aqi_values = 80
      \<and> (\<forall>v \<in> set (butlast aqi_values). 15 \<le> v \<and> v \<le> 250))"
  using generate_monthly_data_anchor
          [of "\<lparr>year = 2026, month = 11, day = 5\<rparr>" 80
              "siterate (\<lambda>n. (n * 37 + 11) mod 101) 3"]
  by simp

text \<open>
  The same run, evaluated: day 1 starts from a draw in \<open>[40, 120]\<close>, days 2 to 4
  follow the previous day, and day 5 is the anchor.
\<close>

lemma generate_monthly_data_example:
  "generate_monthly_data (Some 80) \<lparr>year = 2026, month = 11, day = 5\<rparr>
     (siterate (\<lambda>n. (n * 37 + 11) mod 101) 3)
   = (([''11/01/2026'', ''11/02/2026'', ''11/03/2026'', ''11/04/2026'', ''11/05/2026''],
       [58, 98, 104, 137, 80]),
      siterate (\<lambda>n. (n * 37 + 11) mod 101) 65)"
  by (simp add: generate_monthly_data_def monthly_loop_done monthly_loop_anchor
      monthly_loop_synthetic synthetic_aqi_def randint_def weekday_def toordinal_def
      days_before_year_def days_before_month_def DAYS_BEFORE_MONTH_def is_leap_def Let_def
      strftime_mdY_def two_digits_def four_digits_def digit_char_def)

section \<open>Properties of rounding to double\<close>

subsection \<open>The exponent search\<close>

lemma expo_search_range: "e \<le> expo_search n e a \<and> expo_search n e a \<le> e + int n"
  by (induction n e a rule: expo_search.induct) auto

lemma expo_search_lower:
  "e < expo_search n e a \<Longrightarrow> 2 powi (expo_search n e a) \<le> a"
proof (induction n e a rule: expo_search.induct)
  case (1 e a)
  then show ?case by simp
next
  case (2 n e a)
  show ?case
  proof (cases "2 powi (e + 1) \<le> a")
    case True
    show ?thesis
    proof (cases "e + 1 < expo_search n (e + 1) a")
      case True
      with 2 \<open>2 powi (e + 1) \<le> a\<close> show ?thesis by simp
    next
      case False
      with expo_search_range [of "e + 1" n a] have "expo_search n (e + 1) a = e + 1" by simp
      with True show ?thesis by simp
    qed
  next
    case False
    with 2 show ?thesis by simp
  qed
qed

lemma expo_search_upper:
  "expo_search n e a < e + int n \<Longrightarrow> a < 2 powi (expo_search n e a + 1)"
proof (induction n e a rule: expo_search.induct)
  case (1 e a)
  then show ?case by simp
next
  case (2 n e a)
  then show ?case by (cases "2 powi (e + 1) \<le> a") auto
qed

lemma float_exponent_range: "- 1022 \<le> float_exponent x \<and> float_exponent x \<le> 1024"
  using expo_search_range [of "- 1022" 2046 "\<bar>x\<bar>"] by (simp add: float_exponent_def)

lemma float_exponent_lower:
  "- 1022 < float_exponent x \<Longrightarrow> 2 powi (float_exponent x) \<le> \<bar>x\<bar>"
  unfolding float_exponent_def by (rule expo_search_lower)

lemma float_exponent_upper:
  "float_exponent x < 1024 \<Longrightarrow> \<bar>x\<bar> < 2 powi (float_exponent x + 1)"
  unfolding float_exponent_def by (rule expo_search_upper) simp

lemma float_exponent_eqI:
  assumes "- 1022 \<le> e" and "e \<le> 1024"
    and "- 1022 < e \<Longrightarrow> 2 powi e \<le> \<bar>x\<bar>"
    and "e < 1024 \<Longrightarrow> \<bar>x\<bar> < 2 powi (e + 1)"
  shows "float_exponent x = e"
proof (rule ccontr)
  assume ne: "float_exponent x \<noteq> e"
  let ?f = "float_exponent x"
  show False
  proof (cases "?f < e")
    case True
    with assms(2) have "?f < 1024" by simp
    then have "\<bar>x\<bar> < 2 powi (?f + 1)" by (rule float_exponent_upper)
    also have "\<dots> \<le> 2 powi e" using True by (intro power_int_increasing) simp_all
    also have "\<dots> \<le> \<bar>x\<bar>" using True float_exponent_range [of x] by (intro assms(3)) simp
    finally show False by simp
  next
    case False
    with ne have gt: "e < ?f" by simp
    with float_exponent_range [of x] have "e < 1024" by simp
    then have "\<bar>x\<bar> < 2 powi (e + 1)" by (rule assms(4))
    also have "\<dots> \<le> 2 powi ?f" using gt by (intro power_int_increasing) simp_all
    also have "\<dots> \<le> \<bar>x\<bar>" using gt assms(1) by (intro float_exponent_lower) simp
    finally show False by simp
  qed
qed

lemma float_exponent_abs: "float_exponent \<bar>x\<bar> = float_exponent x"
  by (simp add: float_exponent_def)

lemma float_exponent_uminus: "float_exponent (- x) = float_exponent x"
  by (simp add: float_exponent_def)

lemma float_exponent_mono:
  assumes "\<bar>x\<bar> \<le> \<bar>y\<bar>"
  shows "float_exponent x \<le> float_exponent y"
proof (rule ccontr)
  assume "\<not> float_exponent x \<le> float_exponent y"
  then have gt: "float_exponent y < float_exponent x" by simp
  with float_exponent_range [of x] have "float_exponent y < 1024" by simp
  then have "\<bar>y\<bar> < 2 powi (float_exponent y + 1)" by (rule float_exponent_upper)
  also have "\<dots> \<le> 2 powi (float_exponent x)" using gt by (intro power_int_increasing) simp_all
  also have "\<dots> \<le> \<bar>x\<bar>" using gt float_exponent_range [of y] by (intro float_exponent_lower) simp
  finally show False using assms by simp
qed

lemma ulp_pos: "0 < ulp x"
  by (simp add: ulp_def)

lemma ulp_uminus: "ulp (- x) = ulp x"
  by (simp add: ulp_def float_exponent_uminus)

subsection \<open>Symmetry and monotonicity\<close>

lemma py_round_error: "\<bar>of_int (py_round t) - t\<bar> \<le> 1 / 2"
proof -
  have "of_int \<lfloor>t\<rfloor> \<le> t" "t < of_int \<lfloor>t\<rfloor> + 1" by linarith+
  then show ?thesis by (auto simp: py_round_def Let_def)
qed

lemma floor_uminus_nonint:
  fixes t :: real
  assumes "t \<noteq> of_int \<lfloor>t\<rfloor>"
  shows "\<lfloor>- t\<rfloor> = - \<lfloor>t\<rfloor> - 1"
proof -
  have "\<lfloor>- t\<rfloor> = - \<lceil>t\<rceil>" by (simp add: ceiling_def)
  also have "\<lceil>t\<rceil> = \<lfloor>t\<rfloor> + 1" using assms by (simp add: ceiling_altdef)
  finally show ?thesis by simp
qed

lemma py_round_uminus: "py_round (- t) = - py_round t"
proof (cases "t = of_int \<lfloor>t\<rfloor>")
  case True
  then obtain n where "t = of_int n" ..
  then have "- t = of_int (- n)" by simp
  then show ?thesis using \<open>t = of_int n\<close> by (simp only: py_round_of_int)
next
  case False
  then have fl: "\<lfloor>- t\<rfloor> = - \<lfloor>t\<rfloor> - 1" by (rule floor_uminus_nonint)
  define f where "f = \<lfloor>t\<rfloor>"
  define d where "d = t - of_int f"
  have "of_int f \<le> t" unfolding f_def by linarith
  moreover from False have "of_int f \<noteq> t" unfolding f_def by (rule not_sym)
  ultimately have "of_int f < t" by (simp add: less_le)
  then have d: "0 < d" by (simp add: d_def)
  have "t < of_int f + 1" unfolding f_def by linarith
  then have d1: "d < 1" by (simp add: d_def)
  have r: "py_round t = (if d < 1 / 2 then f else if 1 / 2 < d then f + 1
                         else if even f then f else f + 1)"
    by (simp add: py_round_def Let_def f_def d_def)
  have "- t - of_int (- f - 1) = 1 - d" by (simp add: d_def)
  then have r': "py_round (- t) = (if 1 - d < 1 / 2 then - f - 1 else if 1 / 2 < 1 - d then - f
                         else if even (- f - 1) then - f - 1 else - f)"
    by (simp add: py_round_def Let_def fl flip: f_def)
  show ?thesis unfolding r r' using d d1 by auto
qed

lemma py_round_0: "py_round 0 = 0"
  by (simp add: py_round_def)

lemma py_round_less_half: "t < of_int n + 1 / 2 \<Longrightarrow> py_round t \<le> n"
proof -
  assume a: "t < of_int n + 1 / 2"
  have "of_int (py_round t) - t \<le> 1 / 2" using py_round_error [of t] by linarith
  with a have "(of_int (py_round t) :: real) < of_int n + 1" by linarith
  then have "py_round t < n + 1" by linarith
  then show ?thesis by simp
qed

lemma py_round_greater_half: "of_int n - 1 / 2 < t \<Longrightarrow> n \<le> py_round t"
proof -
  assume a: "of_int n - 1 / 2 < t"
  have "t - of_int (py_round t) \<le> 1 / 2" using py_round_error [of t] by linarith
  with a have "(of_int n :: real) - 1 < of_int (py_round t)" by linarith
  then have "n - 1 < py_round t" by linarith
  then show ?thesis by simp
qed

lemma pow2_div: "(2 :: real) powi a / 2 powi b = 2 powi (a - b)"
  by (simp add: power_int_diff)

lemma pow2_mult: "(2 :: real) powi a * 2 powi b = 2 powi (a + b)"
  by (simp add: power_int_add)

lemma pow2_over_ulp: "2 powi a / ulp x = 2 powi (a - float_exponent x + 52)"
  by (simp add: ulp_def pow2_div algebra_simps)

lemma pow2_times_ulp: "2 powi a * ulp x = 2 powi (a + float_exponent x - 52)"
  by (simp add: ulp_def pow2_mult algebra_simps)

lemma rnd_0: "rnd 0 = 0"
  by (simp add: rnd_def py_round_0)

lemma rnd_uminus: "rnd (- x) = - rnd x"
  by (simp add: rnd_def ulp_uminus py_round_uminus)

lemma rnd_nonneg: "0 \<le> x \<Longrightarrow> 0 \<le> rnd x"
proof -
  assume "0 \<le> x"
  then have "of_int 0 \<le> x / ulp x" using ulp_pos [of x] by simp
  then have "0 \<le> py_round (x / ulp x)" by (rule py_round_lower)
  then show ?thesis using ulp_pos [of x] by (simp add: rnd_def)
qed

lemma rnd_nonpos: "x \<le> 0 \<Longrightarrow> rnd x \<le> 0"
  using rnd_nonneg [of "- x"] by (simp add: rnd_uminus)

text \<open>Rounding stays inside the binade.\<close>

lemma rnd_binade_upper:
  assumes "0 \<le> x" and "float_exponent x < 1024"
  shows "rnd x \<le> 2 powi (float_exponent x + 1)"
proof -
  let ?e = "float_exponent x"
  from assms have "x < 2 powi (?e + 1)" using float_exponent_upper [of x] by simp
  then have "x / ulp x \<le> 2 powi (?e + 1) / ulp x"
    using ulp_pos [of x] by (simp add: divide_right_mono)
  also have "2 powi (?e + 1) / ulp x = (2 :: real) powi 53"
    by (simp add: pow2_over_ulp)
  also have "\<dots> = of_int (2 ^ 53)" by simp
  finally have "py_round (x / ulp x) \<le> 2 ^ 53" by (rule py_round_upper)
  then have "(of_int (py_round (x / ulp x)) :: real) \<le> of_int (2 ^ 53)"
    by (simp only: of_int_le_iff)
  then have "rnd x \<le> of_int (2 ^ 53) * ulp x"
    unfolding rnd_def using ulp_pos [of x] by (intro mult_right_mono) simp_all
  also have "\<dots> = 2 powi 53 * ulp x" by simp
  also have "\<dots> = 2 powi (?e + 1)" by (simp only: pow2_times_ulp) (simp add: add.commute)
  finally show ?thesis .
qed

lemma rnd_binade_lower:
  assumes "0 \<le> x" and "- 1022 < float_exponent x"
  shows "2 powi (float_exponent x) \<le> rnd x"
proof -
  let ?e = "float_exponent x"
  from assms have "2 powi ?e \<le> x" using float_exponent_lower [of x] by simp
  then have "2 powi ?e / ulp x \<le> x / ulp x"
    using ulp_pos [of x] by (simp add: divide_right_mono)
  moreover have "2 powi ?e / ulp x = (2 :: real) powi 52"
    by (simp add: pow2_over_ulp)
  moreover have "(2 :: real) powi 52 = of_int (2 ^ 52)" by simp
  ultimately have "of_int (2 ^ 52) \<le> x / ulp x" by simp
  then have "2 ^ 52 \<le> py_round (x / ulp x)" by (rule py_round_lower)
  then have "(of_int (2 ^ 52) :: real) \<le> of_int (py_round (x / ulp x))"
    by (simp only: of_int_le_iff)
  then have "of_int (2 ^ 52) * ulp x \<le> rnd x"
    unfolding rnd_def using ulp_pos [of x] by (intro mult_right_mono) simp_all
  moreover have "of_int (2 ^ 52) * ulp x = 2 powi 52 * ulp x" by simp
  moreover have "2 powi 52 * ulp x = 2 powi ?e" by (simp only: pow2_times_ulp) simp
  ultimately show ?thesis by simp
qed

lemma rnd_mono_nonneg:
  assumes "0 \<le> x" and "x \<le> y"
  shows "rnd x \<le> rnd y"
proof -
  from assms have le: "float_exponent x \<le> float_exponent y"
    by (intro float_exponent_mono) simp
  show ?thesis
  proof (cases "float_exponent x = float_exponent y")
    case True
    then have u: "ulp x = ulp y" by (simp add: ulp_def)
    from assms have "x / ulp y \<le> y / ulp y"
      using ulp_pos [of y] by (simp add: divide_right_mono)
    then have "py_round (x / ulp y) \<le> py_round (y / ulp y)" by (rule py_round_mono)
    then have "(of_int (py_round (x / ulp y)) :: real) \<le> of_int (py_round (y / ulp y))"
      by (simp only: of_int_le_iff)
    then show ?thesis
      unfolding rnd_def u using ulp_pos [of y] by (intro mult_right_mono) simp_all
  next
    case False
    with le have lt: "float_exponent x < float_exponent y" by simp
    with float_exponent_range [of y] have "float_exponent x < 1024" by simp
    with assms have "rnd x \<le> 2 powi (float_exponent x + 1)" by (intro rnd_binade_upper)
    also have "\<dots> \<le> 2 powi (float_exponent y)"
      using lt by (intro power_int_increasing) simp_all
    also have "\<dots> \<le> rnd y"
      using assms lt float_exponent_range [of x] by (intro rnd_binade_lower) simp_all
    finally show ?thesis .
  qed
qed

lemma rnd_mono:
  assumes "x \<le> y"
  shows "rnd x \<le> rnd y"
proof (cases "0 \<le> x")
  case True
  then show ?thesis using assms by (rule rnd_mono_nonneg)
next
  case neg: False
  show ?thesis
  proof (cases "0 \<le> y")
    case True
    have "rnd x \<le> 0" using neg by (intro rnd_nonpos) simp
    also have "0 \<le> rnd y" using True by (rule rnd_nonneg)
    finally show ?thesis .
  next
    case False
    with assms have "0 \<le> - y" "- y \<le> - x" by simp_all
    then have "rnd (- y) \<le> rnd (- x)" by (rule rnd_mono_nonneg)
    then show ?thesis by (simp add: rnd_uminus)
  qed
qed

subsection \<open>Representable numbers and the relative error\<close>

lemma rnd_at:
  assumes "- 1022 \<le> e" and "e \<le> 1024"
    and "- 1022 < e \<Longrightarrow> 2 powi e \<le> \<bar>x\<bar>"
    and "e < 1024 \<Longrightarrow> \<bar>x\<bar> < 2 powi (e + 1)"
  shows "rnd x = of_int (py_round (x / 2 powi (e - 52))) * 2 powi (e - 52)"
proof -
  have "float_exponent x = e" using assms by (rule float_exponent_eqI)
  then show ?thesis by (simp add: rnd_def ulp_def)
qed

lemma rnd_representable:
  assumes m: "\<bar>m\<bar> < 2 ^ 53" and q: "- 1074 \<le> q"
  shows "rnd (of_int m * 2 powi q) = of_int m * 2 powi q"
proof -
  let ?x = "of_int m * 2 powi q :: real"
  let ?e = "float_exponent ?x"
  have e: "?e \<le> q + 52"
  proof (cases "- 1022 < ?e")
    case True
    then have "2 powi ?e \<le> \<bar>?x\<bar>" by (rule float_exponent_lower)
    also have "\<bar>?x\<bar> = of_int \<bar>m\<bar> * 2 powi q" by (simp add: abs_mult)
    also have "\<dots> < of_int (2 ^ 53) * 2 powi q"
      using m by (intro mult_strict_right_mono) (simp_all only: of_int_less_iff, simp)
    also have "\<dots> = 2 powi (q + 53)" by (simp add: power_int_add)
    finally have lt: "(2 :: real) powi ?e < 2 powi (q + 53)" .
    show ?thesis
    proof (rule ccontr)
      assume "\<not> ?e \<le> q + 52"
      then have "q + 53 \<le> ?e" by simp
      then have "(2 :: real) powi (q + 53) \<le> 2 powi ?e"
        by (intro power_int_increasing) simp_all
      with lt show False by simp
    qed
  next
    case False
    with float_exponent_range [of ?x] have "?e = - 1022" by simp
    with q show ?thesis by simp
  qed
  define n where "n = nat (q - ?e + 52)"
  from e have n: "int n = q - ?e + 52" by (simp add: n_def)
  have "?x / ulp ?x = of_int m * (2 powi q / ulp ?x)" by simp
  also have "2 powi q / ulp ?x = 2 powi (int n)" by (simp only: pow2_over_ulp n)
  also have "of_int m * 2 powi (int n) = (of_int (m * 2 ^ n) :: real)" by simp
  finally have "py_round (?x / ulp ?x) = m * 2 ^ n" by (simp only: py_round_of_int)
  then have "rnd ?x = of_int (m * 2 ^ n) * ulp ?x" by (simp only: rnd_def)
  also have "\<dots> = of_int m * (2 powi (int n) * ulp ?x)" by simp
  also have "2 powi (int n) * ulp ?x = 2 powi q" by (simp only: pow2_times_ulp n) simp
  finally show ?thesis .
qed

lemma rnd_of_int:
  assumes "\<bar>n\<bar> < 2 ^ 53"
  shows "rnd (of_int n) = of_int n"
  using rnd_representable [OF assms, of 0] by simp

lemma rnd_pow2:
  assumes "- 1074 \<le> q"
  shows "rnd (2 powi q) = 2 powi q"
  using rnd_representable [of 1 q] assms by simp

lemma rnd_error:
  assumes "2 powi (- 1022) \<le> \<bar>x\<bar>"
  shows "\<bar>rnd x - x\<bar> \<le> \<bar>x\<bar> * 2 powi (- 53)"
proof -
  let ?e = "float_exponent x"
  have lower: "2 powi ?e \<le> \<bar>x\<bar>"
  proof (cases "- 1022 < ?e")
    case True
    then show ?thesis by (rule float_exponent_lower)
  next
    case False
    with float_exponent_range [of x] have "?e = - 1022" by simp
    with assms show ?thesis by simp
  qed
  have "rnd x - x = (of_int (py_round (x / ulp x)) - x / ulp x) * ulp x"
    using ulp_pos [of x] by (simp add: rnd_def algebra_simps)
  then have "\<bar>rnd x - x\<bar> = \<bar>of_int (py_round (x / ulp x)) - x / ulp x\<bar> * ulp x"
    using ulp_pos [of x] by (simp add: abs_mult)
  also have "\<dots> \<le> 1 / 2 * ulp x"
    using ulp_pos [of x] py_round_error [of "x / ulp x"] by (intro mult_right_mono) simp_all
  also have "1 / 2 * ulp x = 2 powi (- 1) * ulp x" by simp
  also have "\<dots> = 2 powi ?e * 2 powi (- 53)" by (simp only: pow2_times_ulp pow2_mult) simp
  also have "\<dots> \<le> \<bar>x\<bar> * 2 powi (- 53)" using lower by (intro mult_right_mono) simp_all
  finally show ?thesis .
qed

lemma rnd_upper_rel:
  assumes "2 powi (- 1022) \<le> x"
  shows "rnd x \<le> x * (1 + 2 powi (- 53))"
proof -
  from assms have pos: "0 < x" by (rule less_le_trans [rotated]) simp
  with assms have "\<bar>rnd x - x\<bar> \<le> x * 2 powi (- 53)" using rnd_error [of x] by simp
  then have "rnd x - x \<le> x * 2 powi (- 53)" by linarith
  then show ?thesis by (simp add: algebra_simps)
qed

lemma rnd_lower_rel:
  assumes "2 powi (- 1022) \<le> x"
  shows "x * (1 - 2 powi (- 53)) \<le> rnd x"
proof -
  from assms have pos: "0 < x" by (rule less_le_trans [rotated]) simp
  with assms have "\<bar>rnd x - x\<bar> \<le> x * 2 powi (- 53)" using rnd_error [of x] by simp
  then have "x - rnd x \<le> x * 2 powi (- 53)" by linarith
  then show ?thesis by (simp add: algebra_simps)
qed

lemma rnd_DBL_MAX: "rnd DBL_MAX = DBL_MAX"
proof -
  have "rnd (of_int (2 ^ 53 - 1) * 2 powi 971) = of_int (2 ^ 53 - 1) * 2 powi 971"
    by (rule rnd_representable) simp_all
  then show ?thesis by (simp add: DBL_MAX_def)
qed

lemma fl_finite:
  assumes "\<bar>x\<bar> \<le> DBL_MAX"
  shows "fl x = Finite (rnd x)"
proof -
  from assms have "x \<le> DBL_MAX" "- DBL_MAX \<le> x" by linarith+
  then have "rnd x \<le> rnd DBL_MAX" "rnd (- DBL_MAX) \<le> rnd x" by (simp_all only: rnd_mono)
  then have "rnd x \<le> DBL_MAX" "- DBL_MAX \<le> rnd x" by (simp_all add: rnd_uminus rnd_DBL_MAX)
  then show ?thesis by (simp add: fl_def Let_def)
qed

lemma DBL_MAX_large: "2 ^ 1000 \<le> DBL_MAX"
  by (simp add: DBL_MAX_def)

lemma unit_roundoff_cubed:
  "(1 + 2 powi (- 53)) * (1 + 2 powi (- 53)) * (1 + 2 powi (- 53)) \<le> (1 + 1 / 1001 :: real)"
  "(1 - 1 / 1001 :: real) \<le> (1 - 2 powi (- 53)) * (1 - 2 powi (- 53)) * (1 - 2 powi (- 53))"
  by (simp_all add: power_int_minus field_simps)

lemma rnd_1: "rnd 1 = 1"
  using rnd_of_int [of 1] by simp

lemma rnd_numeral: "(numeral k :: int) < 2 ^ 53 \<Longrightarrow> rnd (numeral k) = numeral k"
  using rnd_of_int [of "numeral k"] by simp

lemma tiny_le: "(2 :: real) powi (- 1022) \<le> 1 / 2000"
  by (simp add: power_int_minus field_simps)

section \<open>Properties of the AQI mapper on doubles\<close>

subsection \<open>One row of the table\<close>

text \<open>
  The interpolation of one row, with its five roundings: between the ends of the row the
  sum stays within half a unit of the index interval, and at the upper end it is within
  half a unit of the upper index.
\<close>

lemma interpolation_reals:
  fixes lo hi ct D L :: real
  defines "u \<equiv> 2 powi (- 53) :: real"
  defines "w \<equiv> rnd (hi - lo)"
  defines "slope \<equiv> rnd (D / w)"
  defines "d \<equiv> rnd (ct - lo)"
  defines "P \<equiv> rnd (slope * d)"
  defines "S \<equiv> rnd (P + L)"
  assumes lo: "0 \<le> lo" and gap: "lo + 1 \<le> hi" and hi: "hi \<le> 1000"
    and ct: "lo \<le> ct" "ct \<le> hi"
    and L: "0 \<le> L" "rnd L = L" and D: "1 \<le> D" and H: "D + L \<le> 500"
  shows "1 \<le> w \<and> w \<le> 1000"
    and "0 \<le> slope \<and> slope \<le> 1000"
    and "0 \<le> d \<and> d \<le> 1000"
    and "0 \<le> P \<and> P \<le> 1000"
    and "L \<le> S \<and> S < D + L + 1 / 2"
    and "ct = hi \<Longrightarrow> D + L - 1 / 2 < S"
proof -
  have D5: "D \<le> 500" using L H by simp
  have u: "0 < u" "u < 1" "1 / 2 \<le> 1 - u" "1 + u \<le> 5 / 4"
    by (simp_all add: u_def power_int_minus)
  have "rnd 1 \<le> rnd (hi - lo)" using gap by (intro rnd_mono) simp
  moreover have "rnd (hi - lo) \<le> rnd 1000" using lo hi by (intro rnd_mono) simp
  ultimately show w: "1 \<le> w \<and> w \<le> 1000"
    unfolding w_def by (simp add: rnd_1 rnd_numeral)
  then have w0: "0 < w" by simp
  have q0: "0 \<le> D / w" using D w0 by simp
  have "D / w \<le> D / 1" using D w by (intro divide_left_mono) simp_all
  then have q5: "D / w \<le> 500" using D5 by simp
  have "1 / 1000 \<le> 1 / w" using w w0 by (intro divide_left_mono) simp_all
  also have "1 / w \<le> D / w" using D w0 by (intro divide_right_mono) simp_all
  finally have "1 / 1000 \<le> D / w" .
  then have qt: "2 powi (- 1022) \<le> D / w" using tiny_le by linarith
  have s_hi: "slope \<le> D / w * (1 + u)"
    unfolding slope_def u_def using qt by (rule rnd_upper_rel)
  have s_lo: "D / w * (1 - u) \<le> slope"
    unfolding slope_def u_def using qt by (rule rnd_lower_rel)
  have s0: "0 \<le> slope" unfolding slope_def using q0 by (rule rnd_nonneg)
  have "D / w * (1 + u) \<le> 500 * 2" using q0 q5 u by (intro mult_mono) simp_all
  with s_hi s0 show s: "0 \<le> slope \<and> slope \<le> 1000" by simp
  have sw_hi: "slope * w \<le> D * (1 + u)"
  proof -
    have "slope * w \<le> D / w * (1 + u) * w" using s_hi w0 by (intro mult_right_mono) simp_all
    also have "\<dots> = D * (1 + u)" using w0 by simp
    finally show ?thesis .
  qed
  have sw_lo: "D * (1 - u) \<le> slope * w"
  proof -
    have "D / w * (1 - u) * w \<le> slope * w" using s_lo w0 by (intro mult_right_mono) simp_all
    moreover have "D / w * (1 - u) * w = D * (1 - u)" using w0 by simp
    ultimately show ?thesis by simp
  qed
  have d0: "0 \<le> d" unfolding d_def using ct by (intro rnd_nonneg) simp
  have dw: "d \<le> w" unfolding d_def w_def using ct by (intro rnd_mono) simp
  with d0 w show "0 \<le> d \<and> d \<le> 1000" by simp
  define Pmax where "Pmax = rnd (slope * w)"
  have P0: "0 \<le> P" unfolding P_def using s0 d0 by (intro rnd_nonneg) simp
  have PP: "P \<le> Pmax" unfolding P_def Pmax_def using s0 dw by (intro rnd_mono mult_left_mono)
  have half: "1 / 2 \<le> D * (1 - u)"
  proof -
    have "1 * (1 / 2) \<le> D * (1 - u)" using D u by (intro mult_mono) simp_all
    then show ?thesis by simp
  qed
  with sw_lo have swt: "2 powi (- 1022) \<le> slope * w" using tiny_le by linarith
  have Pmax_hi: "Pmax \<le> D * (1 + u) * (1 + u)"
  proof -
    have "Pmax \<le> slope * w * (1 + u)" unfolding Pmax_def u_def using swt by (rule rnd_upper_rel)
    also have "\<dots> \<le> D * (1 + u) * (1 + u)" using sw_hi u by (intro mult_right_mono) simp_all
    finally show ?thesis .
  qed
  have Pmax_lo: "D * (1 - u) * (1 - u) \<le> Pmax"
  proof -
    have "D * (1 - u) * (1 - u) \<le> slope * w * (1 - u)"
      using sw_lo u by (intro mult_right_mono) simp_all
    also have "\<dots> \<le> Pmax" unfolding Pmax_def u_def using swt by (rule rnd_lower_rel)
    finally show ?thesis .
  qed
  have uu: "(1 + u) * (1 + u) \<le> 2"
  proof -
    have "(1 + u) * (1 + u) \<le> 5 / 4 * (5 / 4)" using u by (intro mult_mono) simp_all
    then show ?thesis by simp
  qed
  have uu1: "1 \<le> (1 + u) * (1 + u)"
  proof -
    have "1 * 1 \<le> (1 + u) * (1 + u)" using u by (intro mult_mono) simp_all
    then show ?thesis by simp
  qed
  have vv1: "(1 - u) * (1 - u) \<le> 1"
  proof -
    have "(1 - u) * (1 - u) \<le> 1 * 1" using u by (intro mult_mono) simp_all
    then show ?thesis by simp
  qed
  have "D * (1 + u) * (1 + u) = D * ((1 + u) * (1 + u))" by simp
  also have "\<dots> \<le> 500 * 2" using D D5 uu by (intro mult_mono) simp_all
  finally have "Pmax \<le> 1000" using Pmax_hi by simp
  with P0 PP show "0 \<le> P \<and> P \<le> 1000" by simp
  define Smax where "Smax = rnd (Pmax + L)"
  have S_lo: "L \<le> S"
  proof -
    have "rnd L \<le> rnd (P + L)" using P0 by (intro rnd_mono) simp
    then show ?thesis by (simp add: S_def L)
  qed
  have SS: "S \<le> Smax" unfolding S_def Smax_def using PP by (intro rnd_mono) simp
  have pil: "1 / 4 \<le> Pmax + L"
  proof -
    have "1 / 2 * (1 / 2) \<le> D * (1 - u) * (1 - u)" using half u by (intro mult_mono) simp_all
    with Pmax_lo L show ?thesis by simp
  qed
  then have pilt: "2 powi (- 1022) \<le> Pmax + L" using tiny_le by linarith
  have HL: "0 \<le> D + L" using D L by simp
  have Smax_hi: "Smax \<le> (D + L) * ((1 + u) * (1 + u) * (1 + u))"
  proof -
    have "Smax \<le> (Pmax + L) * (1 + u)"
      unfolding Smax_def u_def using pilt by (rule rnd_upper_rel)
    also have "\<dots> \<le> ((D + L) * ((1 + u) * (1 + u))) * (1 + u)"
    proof (intro mult_right_mono)
      have "L * 1 \<le> L * ((1 + u) * (1 + u))" using L uu1 by (intro mult_left_mono) simp_all
      with Pmax_hi show "Pmax + L \<le> (D + L) * ((1 + u) * (1 + u))"
        by (simp add: algebra_simps)
      show "0 \<le> 1 + u" using u by simp
    qed
    finally show ?thesis by (simp add: mult.assoc)
  qed
  have "(D + L) * ((1 + u) * (1 + u) * (1 + u)) \<le> (D + L) * (1 + 1 / 1001)"
    using HL unit_roundoff_cubed(1) unfolding u_def by (intro mult_left_mono) simp_all
  also have "\<dots> = D + L + (D + L) / 1001" by (simp add: algebra_simps)
  also have "\<dots> < D + L + 1 / 2" using H by simp
  finally have "Smax < D + L + 1 / 2" using Smax_hi by simp
  with S_lo SS show "L \<le> S \<and> S < D + L + 1 / 2" by simp
  show "D + L - 1 / 2 < S" if "ct = hi"
  proof -
    from that have "d = w" by (simp add: d_def w_def)
    then have eq: "S = Smax" by (simp add: S_def Smax_def P_def Pmax_def)
    have a: "(Pmax + L) * (1 - u) \<le> Smax"
      unfolding Smax_def u_def using pilt by (rule rnd_lower_rel)
    have b: "((D + L) * ((1 - u) * (1 - u))) * (1 - u) \<le> (Pmax + L) * (1 - u)"
    proof (intro mult_right_mono)
      have "L * ((1 - u) * (1 - u)) \<le> L * 1" using L vv1 by (intro mult_left_mono) simp_all
      with Pmax_lo show "(D + L) * ((1 - u) * (1 - u)) \<le> Pmax + L"
        by (simp add: algebra_simps)
      show "0 \<le> 1 - u" using u by simp
    qed
    have c: "(D + L) * (1 - 1 / 1001) \<le> (D + L) * ((1 - u) * (1 - u) * (1 - u))"
      using HL unit_roundoff_cubed(2) unfolding u_def by (intro mult_left_mono) simp_all
    have e: "D + L - 1 / 2 < (D + L) * (1 - 1 / 1001)"
      using H by (simp add: algebra_simps)
    note e
    also note c
    also have "(D + L) * ((1 - u) * (1 - u) * (1 - u)) = ((D + L) * ((1 - u) * (1 - u))) * (1 - u)"
      by (simp only: mult.assoc)
    also note b
    also note a
    finally show ?thesis unfolding eq .
  qed
qed

lemma fl_small:
  assumes "\<bar>x\<bar> \<le> 10000000"
  shows "fl x = Finite (rnd x)"
proof -
  have "(10000000 :: real) \<le> 2 ^ 1000" by simp
  with assms DBL_MAX_large have "\<bar>x\<bar> \<le> DBL_MAX" by linarith
  then show ?thesis by (rule fl_finite)
qed

lemma aqi_row_f64:
  assumes lo: "0 \<le> lo" and gap: "lo + 1 \<le> hi" and hi: "hi \<le> 1000"
    and ct: "lo \<le> ct" "ct \<le> hi"
    and il: "0 \<le> il" and ih: "il < ih" "ih \<le> 500"
  shows "\<exists>a. aqi_scan_f64 (((Finite lo, Finite hi), (il, ih)) # rest) (Finite ct) = Inr (Some a)
             \<and> il \<le> a \<and> a \<le> ih \<and> (ct = hi \<longrightarrow> a = ih) \<and> (ct = lo \<longrightarrow> a = il)"
proof -
  define D where "D = (of_int (ih - il) :: real)"
  define L where "L = (of_int il :: real)"
  define w where "w = rnd (hi - lo)"
  define slope where "slope = rnd (D / w)"
  define d where "d = rnd (ct - lo)"
  define P where "P = rnd (slope * d)"
  define S where "S = rnd (P + L)"
  have L: "0 \<le> L" "rnd L = L" using il ih by (simp_all add: L_def rnd_of_int)
  have D: "1 \<le> D" "D + L \<le> 500" using il ih by (simp_all add: D_def L_def)
  note facts = interpolation_reals [OF lo gap hi ct L D, folded w_def slope_def d_def P_def S_def]
  have w: "1 \<le> w" "w \<le> 1000" using facts(1) by simp_all
  have s: "0 \<le> slope" "slope \<le> 1000" using facts(2) by simp_all
  have d: "0 \<le> d" "d \<le> 1000" using facts(3) by simp_all
  have P: "0 \<le> P" "P \<le> 1000" using facts(4) by simp_all
  have S: "L \<le> S" "S < D + L + 1 / 2" using facts(5) by simp_all
  have DL: "D + L = of_int ih" by (simp add: D_def L_def)
  have e1: "fsub (Finite hi) (Finite lo) = Finite w"
    using lo gap hi by (simp add: fsub_def w_def fl_small)
  have "0 \<le> D / w" using D w by simp
  moreover have "D / w \<le> D / 1" using D w by (intro divide_left_mono) simp_all
  ultimately have "\<bar>D / w\<bar> \<le> 10000000" using D L by simp
  then have "fl (D / w) = Finite slope" unfolding slope_def by (rule fl_small)
  moreover have "fdiv (Finite D) (Finite w) = Inr (fl (D / w))" using w by simp
  moreover have "float_of_int (ih - il) = Finite D" by (simp only: float_of_int_def D_def)
  ultimately have e2: "fdiv (float_of_int (ih - il)) (Finite w) = Inr (Finite slope)"
    by (simp only:)
  have e3: "fsub (Finite ct) (Finite lo) = Finite d"
    using lo ct hi by (simp add: fsub_def d_def fl_small)
  have "0 \<le> slope * d" using s d by simp
  moreover have "slope * d \<le> 1000 * 1000" using s d by (intro mult_mono) simp_all
  ultimately have e4: "fmul (Finite slope) (Finite d) = Finite P"
    by (simp add: P_def fl_small)
  have "\<bar>P + L\<bar> \<le> 10000000" using P L D by simp
  then have "fl (P + L) = Finite S" unfolding S_def by (rule fl_small)
  moreover have "fadd (Finite P) (Finite L) = fl (P + L)" by simp
  moreover have "float_of_int il = Finite L" by (simp only: float_of_int_def L_def)
  ultimately have e5: "fadd (Finite P) (float_of_int il) = Finite S"
    by (simp only:)
  have r: "aqi_scan_f64 (((Finite lo, Finite hi), (il, ih)) # rest) (Finite ct)
           = Inr (Some (py_round S))"
    using ct by (simp add: e1 e2 e3 e4 e5 del: fdiv.simps fadd.simps fmul.simps)
  have "il \<le> py_round S" using S(1) unfolding L_def by (rule py_round_lower)
  moreover have "py_round S \<le> ih" using S(2) unfolding DL by (rule py_round_less_half)
  moreover have "ih \<le> py_round S" if "ct = hi"
    using facts(6) [OF that] unfolding DL by (rule py_round_greater_half)
  moreover have "py_round S = il" if "ct = lo"
  proof -
    from that have "d = 0" by (simp add: d_def rnd_0)
    then have "P = 0" by (simp add: P_def rnd_0)
    then have "S = of_int il" using L by (simp add: S_def L_def)
    then show ?thesis by (simp only: py_round_of_int)
  qed
  ultimately show ?thesis using r by auto
qed


subsection \<open>The table\<close>

lemma rnd_ge_numeral:
  assumes "numeral k \<le> x" and "(numeral k :: int) < 2 ^ 53"
  shows "numeral k \<le> rnd x"
proof -
  have "rnd (numeral k) \<le> rnd x" using assms(1) by (rule rnd_mono)
  then show ?thesis using assms(2) by (simp add: rnd_numeral)
qed

lemma rnd_le_numeral:
  assumes "x \<le> numeral k" and "(numeral k :: int) < 2 ^ 53"
  shows "rnd x \<le> numeral k"
proof -
  have "rnd x \<le> rnd (numeral k)" using assms(1) by (rule rnd_mono)
  then show ?thesis using assms(2) by (simp add: rnd_numeral)
qed

lemma breakpoint_literals:
  "12 \<le> rnd 12.1" "rnd 12.1 \<le> 13" "35 \<le> rnd 35.4" "rnd 35.4 \<le> 36"
  "35 \<le> rnd 35.5" "rnd 35.5 \<le> 36" "55 \<le> rnd 55.4" "rnd 55.4 \<le> 56"
  "55 \<le> rnd 55.5" "rnd 55.5 \<le> 56" "150 \<le> rnd 150.4" "rnd 150.4 \<le> 151"
  "150 \<le> rnd 150.5" "rnd 150.5 \<le> 151" "250 \<le> rnd 250.4" "rnd 250.4 \<le> 251"
  "250 \<le> rnd 250.5" "rnd 250.5 \<le> 251" "350 \<le> rnd 350.4" "rnd 350.4 \<le> 351"
  "350 \<le> rnd 350.5" "rnd 350.5 \<le> 351" "500 \<le> rnd 500.4" "rnd 500.4 \<le> 501"
  by (simp_all add: rnd_ge_numeral rnd_le_numeral)

lemma lit_small: "\<bar>x\<bar> \<le> 10000000 \<Longrightarrow> lit x = Finite (rnd x)"
  by (simp add: lit_def fl_small)

lemma get_aqi_breakpoints_f64_values:
  "get_aqi_breakpoints_f64 =
     [((Finite 0, Finite 12), (0, 50)),
      ((Finite (rnd 12.1), Finite (rnd 35.4)), (51, 100)),
      ((Finite (rnd 35.5), Finite (rnd 55.4)), (101, 150)),
      ((Finite (rnd 55.5), Finite (rnd 150.4)), (151, 200)),
      ((Finite (rnd 150.5), Finite (rnd 250.4)), (201, 300)),
      ((Finite (rnd 250.5), Finite (rnd 350.4)), (301, 400)),
      ((Finite (rnd 350.5), Finite (rnd 500.4)), (401, 500))]"
  by (simp add: get_aqi_breakpoints_f64_def lit_small rnd_0 rnd_numeral)








subsection \<open>Range of the index\<close>

lemma fl_Finite_D:
  assumes "fl y = Finite x"
  shows "x = rnd y \<and> \<bar>x\<bar> \<le> DBL_MAX"
  using assms by (auto simp: fl_def Let_def split: if_splits)

lemma fmul_ten_Finite_D:
  assumes "fmul c (float_of_int 10) = Finite x"
  shows "\<exists>r. c = Finite r \<and> x = rnd (r * 10) \<and> \<bar>x\<bar> \<le> DBL_MAX"
proof (cases c)
  case (Finite r)
  with assms have "fl (r * 10) = Finite x" by (simp add: float_of_int_def)
  then show ?thesis using Finite by (auto dest: fl_Finite_D)
qed (use assms in \<open>simp_all add: float_of_int_def signed_inf_def\<close>)

lemma math_trunc_abs_le: "\<bar>of_int (math_trunc x)\<bar> \<le> \<bar>x\<bar>"
proof (cases "0 \<le> x")
  case True
  then have "0 \<le> \<lfloor>x\<rfloor>" by simp
  moreover have "of_int \<lfloor>x\<rfloor> \<le> x" by linarith
  ultimately show ?thesis using True by (simp add: math_trunc_def)
next
  case False
  then have "\<lceil>x\<rceil> \<le> 0" by (simp add: ceiling_le_iff)
  moreover have "x \<le> of_int \<lceil>x\<rceil>" by linarith
  ultimately show ?thesis using False by (simp add: math_trunc_def)
qed

lemma int_truediv_ten:
  assumes "\<bar>x\<bar> \<le> DBL_MAX"
  shows "int_truediv (math_trunc x) 10 = Inr (Finite (rnd (of_int (math_trunc x) / 10)))"
proof -
  have "\<bar>of_int (math_trunc x) / 10\<bar> \<le> \<bar>of_int (math_trunc x) :: real\<bar>" by simp
  also have "\<dots> \<le> \<bar>x\<bar>" by (rule math_trunc_abs_le)
  finally have "\<bar>of_int (math_trunc x) / 10\<bar> \<le> DBL_MAX" using assms by simp
  then have "fl (of_int (math_trunc x) / 10) = Finite (rnd (of_int (math_trunc x) / 10))"
    by (rule fl_finite)
  then show ?thesis by (simp add: int_truediv_def)
qed

lemma calculate_aqi_f64_unfold:
  assumes "fmul c (float_of_int 10) = Finite x"
  shows "calculate_aqi_f64 c =
     (case aqi_scan_f64 get_aqi_breakpoints_f64 (Finite (rnd (of_int (math_trunc x) / 10))) of
        Inl e \<Rightarrow> Inl e
      | Inr (Some calculated_aqi) \<Rightarrow> Inr calculated_aqi
      | Inr None \<Rightarrow> if rnd 500.4 < rnd (of_int (math_trunc x) / 10) then Inr 500 else Inr 0)"
proof -
  from fmul_ten_Finite_D [OF assms] have "\<bar>x\<bar> \<le> DBL_MAX" by blast
  then have "int_truediv (math_trunc x) 10 = Inr (Finite (rnd (of_int (math_trunc x) / 10)))"
    by (rule int_truediv_ten)
  then show ?thesis
    by (simp add: calculate_aqi_f64_def assms lit_small)
qed


lemma rnd_eval:
  assumes "- 1022 \<le> e" and "e \<le> 1024"
    and "- 1022 < e \<Longrightarrow> 2 powi e \<le> \<bar>x\<bar>"
    and "e < 1024 \<Longrightarrow> \<bar>x\<bar> < 2 powi (e + 1)"
    and "py_round (x / 2 powi (e - 52)) = m"
  shows "rnd x = of_int m * 2 powi (e - 52)"
  using rnd_at [OF assms(1-4)] assms(5) by simp






lemma fl_of_int:
  assumes "\<bar>n\<bar> \<le> 10000000"
  shows "fl (of_int n) = Finite (of_int n)"
proof -
  have "\<bar>of_int n :: real\<bar> = of_int \<bar>n\<bar>" by simp
  also have "\<dots> \<le> of_int 10000000" using assms by (simp only: of_int_le_iff)
  finally have "\<bar>of_int n :: real\<bar> \<le> 10000000" by simp
  moreover from assms have "rnd (of_int n) = of_int n" by (intro rnd_of_int) simp
  ultimately show ?thesis by (simp add: fl_small)
qed

lemma fl_0: "fl 0 = Finite 0"
  by (simp add: fl_small rnd_0)

lemma fl_1: "fl 1 = Finite 1" "fl (- 1) = Finite (- 1)"
  by (simp_all add: fl_small rnd_1 rnd_uminus)

lemma flt_not_fle: "flt a b \<Longrightarrow> \<not> fle b a"
  by (cases a; cases b) simp_all





section \<open>Properties of the concentration calculator on doubles\<close>

lemma DBL_MAX_pos: "0 < DBL_MAX"
  by (simp add: DBL_MAX_def)

lemma fl_nonneg: "0 \<le> x \<Longrightarrow> fle (Finite 0) (fl x)"
  using rnd_nonneg [of x] DBL_MAX_pos by (simp add: fl_def Let_def)

lemma fl_nonpos: "x \<le> 0 \<Longrightarrow> fle (fl x) (Finite 0)"
  using rnd_nonpos [of x] DBL_MAX_pos by (simp add: fl_def Let_def)

lemma fdiv_zero: "fdiv a (Finite 0) = Inl ZeroDivisionError"
  by simp




text \<open>Signs through the operations.\<close>

lemma fsub_nonneg: "flt a b \<Longrightarrow> fle (Finite 0) (fsub b a)"
  by (cases a; cases b) (simp_all add: fsub_def fl_nonneg)

lemma fmul_volume_nonneg:
  assumes "flt (Finite 0) f" and "fle (Finite 0) y" and "fmul f y = Finite l"
  shows "0 \<le> l"
proof (cases f)
  case (Finite a)
  show ?thesis
  proof (cases y)
    case (Finite b)
    with assms \<open>f = Finite a\<close> have "0 \<le> a * b" "fl (a * b) = Finite l" by simp_all
    then show ?thesis using fl_Finite_D [of "a * b" l] rnd_nonneg [of "a * b"] by simp
  qed (use assms \<open>f = Finite a\<close> in \<open>simp_all add: signed_inf_def split: if_splits\<close>)
next
  case PosInf
  then show ?thesis using assms
    by (cases y) (simp_all add: signed_inf_def split: if_splits)
qed (use assms in simp_all)

lemma fdiv_thousand_Finite_D:
  assumes "fdiv a (float_of_int 1000) = Inr (Finite v)"
  shows "\<exists>l. a = Finite l \<and> v = rnd (l / 1000)"
  using assms
  by (cases a) (auto simp: float_of_int_def signed_inf_def dest: fl_Finite_D)

lemma fdiv_pos_nonneg:
  assumes "0 < v" and "fle (Finite 0) m"
  shows "\<exists>q. fdiv m (Finite v) = Inr q \<and> fle (Finite 0) q"
  using assms by (cases m) (simp_all add: fl_nonneg signed_inf_def)

lemma fdiv_pos_nonpos:
  assumes "0 < v" and "fle m (Finite 0)"
  shows "\<exists>q. fdiv m (Finite v) = Inr q \<and> fle q (Finite 0)"
  using assms by (cases m) (simp_all add: fl_nonpos signed_inf_def divide_nonpos_pos)

lemma fmul_thousand_nonneg:
  "fle (Finite 0) q \<Longrightarrow> fle (Finite 0) (fmul q (float_of_int 1000))"
  by (cases q) (simp_all add: float_of_int_def fl_nonneg signed_inf_def)

lemma fmul_thousand_nonpos:
  "fle q (Finite 0) \<Longrightarrow> fle (fmul q (float_of_int 1000)) (Finite 0)"
  by (cases q) (simp_all add: float_of_int_def fl_nonpos signed_inf_def mult_nonpos_nonneg)

text \<open>
  Claim C8, amended: for finite masses, \<open>flow_rate > 0\<close> and \<open>stop_time > start_time\<close>,
  when the sampled volume in cubic metres is a finite double other than zero, the function
  returns a number that is \<open>\<ge> 0\<close> when \<open>final_mass \<ge> initial_mass\<close> and \<open>\<le> 0\<close> when
  \<open>final_mass < initial_mass\<close>.
\<close>

theorem calculate_pm25_concentration_f64_sign:
  assumes "flt (float_of_int 0) flow_rate" and "flt time_start time_stop"
    and "fdiv (fmul flow_rate (fsub time_stop time_start)) (float_of_int 1000)
           = Inr (Finite volume_m3)"
    and "volume_m3 \<noteq> 0"
  shows "\<exists>c. calculate_pm25_concentration_f64 (Finite mass_initial) (Finite mass_final)
                flow_rate time_start time_stop = Inr c
             \<and> (mass_initial \<le> mass_final \<longrightarrow> fle (float_of_int 0) c)
             \<and> (mass_final < mass_initial \<longrightarrow> fle c (float_of_int 0))"
proof -
  from assms(1,2) have guard: "\<not> (fle flow_rate (float_of_int 0) \<or> fle time_stop time_start)"
    by (auto dest: flt_not_fle)
  from fdiv_thousand_Finite_D [OF assms(3)] obtain l where
    l: "fmul flow_rate (fsub time_stop time_start) = Finite l" and v: "volume_m3 = rnd (l / 1000)"
    by blast
  have "0 \<le> l"
    using assms(1) fsub_nonneg [OF assms(2)] l
    by (intro fmul_volume_nonneg [of flow_rate]) (simp_all add: float_of_int_def)
  then have "0 \<le> volume_m3" unfolding v by (intro rnd_nonneg) simp
  with assms(4) have pos: "0 < volume_m3" by simp
  let ?md = "fsub (Finite mass_final) (Finite mass_initial)"
  have unfold: "calculate_pm25_concentration_f64 (Finite mass_initial) (Finite mass_final)
                  flow_rate time_start time_stop
                = (case fdiv ?md (Finite volume_m3) of
                     Inl e \<Rightarrow> Inl e
                   | Inr q \<Rightarrow> Inr (fmul q (float_of_int 1000)))"
    using guard
    by (simp add: calculate_pm25_concentration_f64_def assms(3) Let_def del: fdiv.simps
        split: sum.splits)
  show ?thesis
  proof (cases "mass_initial \<le> mass_final")
    case True
    then have "fle (Finite 0) ?md" by (simp add: fsub_def fl_nonneg)
    with pos obtain q where "fdiv ?md (Finite volume_m3) = Inr q" "fle (Finite 0) q"
      using fdiv_pos_nonneg by blast
    then show ?thesis using True unfold fmul_thousand_nonneg [of q]
      by (simp add: float_of_int_def)
  next
    case False
    then have "fle ?md (Finite 0)" by (simp add: fsub_def fl_nonpos)
    with pos obtain q where "fdiv ?md (Finite volume_m3) = Inr q" "fle q (Finite 0)"
      using fdiv_pos_nonpos by blast
    then show ?thesis using False unfold fmul_thousand_nonpos [of q]
      by (simp add: float_of_int_def)
  qed
qed

subsection \<open>Evaluation at given doubles\<close>

lemma fl_eval:
  assumes "- 1022 \<le> e" and "e \<le> 1024"
    and "- 1022 < e \<Longrightarrow> 2 powi e \<le> \<bar>x\<bar>"
    and "e < 1024 \<Longrightarrow> \<bar>x\<bar> < 2 powi (e + 1)"
    and "py_round (x / 2 powi (e - 52)) = m"
    and "\<bar>x\<bar> \<le> 10000000"
  shows "fl x = Finite (of_int m * 2 powi (e - 52))"
  using rnd_eval [OF assms(1-5)] fl_small [OF assms(6)] by simp

text \<open>Underflow: the smallest positive double divided by 1000 rounds to zero.\<close>

lemma rnd_DBL_TRUE_MIN: "rnd DBL_TRUE_MIN = DBL_TRUE_MIN"
  unfolding DBL_TRUE_MIN_def by (rule rnd_pow2) simp


lemma fl_DBL_TRUE_MIN: "fl DBL_TRUE_MIN = Finite DBL_TRUE_MIN"
proof -
  have "\<bar>DBL_TRUE_MIN\<bar> \<le> 10000000"
    by (simp add: DBL_TRUE_MIN_def power_int_minus field_simps)
  then show ?thesis by (simp add: fl_small rnd_DBL_TRUE_MIN)
qed




text \<open>The reading with a final mass one milligram below the initial mass.\<close>

lemma calculate_pm25_concentration_f64_negative:
  "calculate_pm25_concentration_f64 (Finite 100) (Finite 99) (Finite 1) (Finite 0) (Finite 1)
     = Inr (Finite (- 1000000))"
proof -
  define t :: real where "t = of_int 4611686018427388 * 2 powi (- 10 - 52)"
  have t: "fl (1 / 1000) = Finite t"
    unfolding t_def by (rule fl_eval) (simp_all add: py_round_def)
  have q: "fl (- 1 / t) = Finite (- 1000)"
  proof -
    have "fl (- 1 / t) = Finite (of_int (- 8796093022208000) * 2 powi (9 - 52))"
      by (rule fl_eval) (simp_all add: t_def py_round_def)
    then show ?thesis by simp
  qed
  have t0: "t \<noteq> 0" by (simp add: t_def)
  have m: "fl (- 1000000) = Finite (- 1000000)" using fl_of_int [of "- 1000000"] by simp
  show ?thesis
    using fl_1 t q t0 m
    by (simp add: calculate_pm25_concentration_f64_def float_of_int_def fsub_def Let_def)
qed

text \<open>
  Claim C8, as stated: the concentration is non-negative for every accepted input. With a
  final mass one milligram below the initial mass it is \<open>-1000000\<close>.
\<close>

theorem calculate_pm25_concentration_f64_negative_counterexample:
  "flt (float_of_int 0) (Finite 1) \<and> flt (Finite 0) (Finite 1) \<and>
   calculate_pm25_concentration_f64 (Finite 100) (Finite 99) (Finite 1) (Finite 0) (Finite 1)
     = Inr (Finite (- 1000000)) \<and>
   \<not> fle (float_of_int 0) (Finite (- 1000000))"
  using calculate_pm25_concentration_f64_negative by (simp add: float_of_int_def)

lemma unit_volume_m3:
  "fdiv (fmul (Finite 1) (fsub (Finite 1) (Finite 0))) (float_of_int 1000)
     = Inr (Finite (of_int 4611686018427388 * 2 powi (- 62)))"
proof -
  have "fl (1 / 1000) = Finite (of_int 4611686018427388 * 2 powi (- 10 - 52))"
    by (rule fl_eval) (simp_all add: py_round_def)
  then show ?thesis using fl_1 by (simp add: float_of_int_def fsub_def)
qed

theorem calculate_pm25_concentration_f64_sign_witness:
  "flt (float_of_int 0) (Finite 1) \<and> flt (Finite 0) (Finite 1) \<and>
   fdiv (fmul (Finite 1) (fsub (Finite 1) (Finite 0))) (float_of_int 1000)
     = Inr (Finite (of_int 4611686018427388 * 2 powi (- 62))) \<and>
   (of_int 4611686018427388 * 2 powi (- 62) :: real) \<noteq> 0 \<and>
   (\<exists>c. calculate_pm25_concentration_f64 (Finite 100) (Finite 99) (Finite 1) (Finite 0)
          (Finite 1) = Inr c
        \<and> ((100 :: real) \<le> 99 \<longrightarrow> fle (float_of_int 0) c)
        \<and> ((99 :: real) < 100 \<longrightarrow> fle c (float_of_int 0))) \<and>
   (\<exists>c. calculate_pm25_concentration_f64 (Finite 100) (Finite 102.5) (Finite 1) (Finite 0)
          (Finite 1) = Inr c
        \<and> ((100 :: real) \<le> 102.5 \<longrightarrow> fle (float_of_int 0) c)
        \<and> ((102.5 :: real) < 100 \<longrightarrow> fle c (float_of_int 0)))"
proof -
  have h1: "flt (float_of_int 0) (Finite 1)" by (simp add: float_of_int_def)
  have h2: "flt (Finite 0) (Finite 1)" by simp
  have h4: "(of_int 4611686018427388 * 2 powi (- 62) :: real) \<noteq> 0" by simp
  from calculate_pm25_concentration_f64_sign
         [OF h1 h2 unit_volume_m3 h4, where mass_initial = 100 and mass_final = 99]
    calculate_pm25_concentration_f64_sign
         [OF h1 h2 unit_volume_m3 h4, where mass_initial = 100 and mass_final = "102.5"]
    h1 h2 unit_volume_m3 h4
  show ?thesis by blast
qed

text \<open>
  A final mass below the initial mass by the smallest positive double: the quotient
  underflows and the result is zero, not negative.
\<close>

lemma calculate_pm25_concentration_f64_tiny_negative:
  "calculate_pm25_concentration_f64 (Finite 0) (Finite (- DBL_TRUE_MIN)) (Finite 1000000)
     (Finite 0) (Finite 1) = Inr (Finite 0)"
proof -
  have a: "fl (- DBL_TRUE_MIN) = Finite (- DBL_TRUE_MIN)"
    using fl_DBL_TRUE_MIN DBL_MAX_pos
    by (auto simp: fl_def Let_def rnd_uminus split: if_splits)
  have b: "fl 1000000 = Finite 1000000" using fl_of_int [of 1000000] by simp
  have c: "fl 1000 = Finite 1000" using fl_of_int [of 1000] by simp
  have "fl (- (DBL_TRUE_MIN / 1000)) = Finite (of_int 0 * 2 powi (- 1022 - 52))"
    by (rule fl_eval) (simp_all add: DBL_TRUE_MIN_def py_round_def power_int_minus field_simps)
  then have d: "fl (- (DBL_TRUE_MIN / 1000)) = Finite 0" by simp
  show ?thesis
    using a b c d fl_0 fl_1
    by (simp add: calculate_pm25_concentration_f64_def float_of_int_def fsub_def Let_def)
qed

text \<open>The worked example of the specification, in doubles.\<close>

lemma calculate_pm25_concentration_f64_example:
  "calculate_pm25_concentration_f64 (Finite 100) (Finite 102.5) (lit 16.7) (Finite 0)
     (Finite 1440) = Inr (Finite (of_int 7315446625256155 * 2 powi (- 46)))"
proof -
  define f0 :: real where "f0 = of_int 4700632111067955 * 2 powi (4 - 52)"
  define vm :: real where "vm = of_int 6768910239937855 * 2 powi (4 - 52)"
  define cm :: real where "cm = of_int 7491017344262303 * 2 powi (- 4 - 52)"
  have f0: "lit 16.7 = Finite f0"
    unfolding f0_def lit_def by (rule fl_eval) (simp_all add: py_round_def)
  have f0_pos: "0 < f0" by (simp add: f0_def)
  have t: "fl 1440 = Finite 1440" using fl_of_int [of 1440] by simp
  have vl: "fl (f0 * 1440) = Finite 24048"
  proof -
    have "fl (f0 * 1440) = Finite (of_int 6610263906189312 * 2 powi (14 - 52))"
      by (rule fl_eval) (simp_all add: f0_def py_round_def)
    then show ?thesis by simp
  qed
  have vm: "fl (24048 / 1000) = Finite vm"
    unfolding vm_def by (rule fl_eval) (simp_all add: py_round_def)
  have vm0: "vm \<noteq> 0" by (simp add: vm_def)
  have md: "fl (102.5 - 100) = Finite 2.5"
  proof -
    have "fl (102.5 - 100) = Finite (of_int 5629499534213120 * 2 powi (1 - 52))"
      by (rule fl_eval) (simp_all add: py_round_def)
    then show ?thesis by simp
  qed
  have cm: "fl (2.5 / vm) = Finite cm"
    unfolding cm_def by (rule fl_eval) (simp_all add: vm_def py_round_def)
  have cu: "fl (cm * 1000) = Finite (of_int 7315446625256155 * 2 powi (6 - 52))"
    by (rule fl_eval) (simp_all add: cm_def py_round_def)
  show ?thesis
    using f0 f0_pos t vl vm vm0 md cm cu
    by (simp add: calculate_pm25_concentration_f64_def float_of_int_def fsub_def Let_def)
qed


text \<open>
  At 5.4 the two models differ: the exact interpolation is the tie 22.5, which rounds to
  the even 22; in doubles the product is 22.500000000000004, which rounds to 23.
\<close>

lemma calculate_aqi_tie: "calculate_aqi 5.4 = Inr 22"
  by (simp add: calculate_aqi_def get_aqi_breakpoints_def math_trunc_def py_truediv_def
      py_round_def Let_def)

lemma calculate_aqi_f64_tie: "calculate_aqi_f64 (lit 5.4) = Inr 23"
proof -
  define c0 :: real where "c0 = of_int 6079859496950170 * 2 powi (2 - 52)"
  define s0 :: real where "s0 = of_int 4691249611844267 * 2 powi (2 - 52)"
  define P0 :: real where "P0 = of_int 6333186975989761 * 2 powi (4 - 52)"
  have c0: "lit 5.4 = Finite c0"
    unfolding c0_def lit_def by (rule fl_eval) (simp_all add: py_round_def)
  have x: "fl (c0 * 10) = Finite 54"
  proof -
    have "fl (c0 * 10) = Finite (of_int 7599824371187712 * 2 powi (5 - 52))"
      by (rule fl_eval) (simp_all add: c0_def py_round_def)
    then show ?thesis by simp
  qed
  then have mul: "fmul (Finite c0) (float_of_int 10) = Finite 54"
    by (simp add: float_of_int_def)
  have k: "math_trunc 54 = 54" by (simp add: math_trunc_def)
  have ct: "rnd (54 / 10) = c0"
    unfolding c0_def by (rule rnd_eval) (simp_all add: py_round_def)
  have bounds: "0 \<le> c0" "c0 \<le> 12" by (simp_all add: c0_def)
  have w: "fl 12 = Finite 12" using fl_of_int [of 12] by simp
  have s: "fl (50 / 12) = Finite s0"
    unfolding s0_def by (rule fl_eval) (simp_all add: py_round_def)
  have d: "fl c0 = Finite c0"
    unfolding c0_def by (rule fl_eval) (simp_all add: py_round_def)
  have P: "fl (s0 * c0) = Finite P0"
    unfolding P0_def by (rule fl_eval) (simp_all add: s0_def c0_def py_round_def)
  have S: "fl P0 = Finite P0"
    unfolding P0_def by (rule fl_eval) (simp_all add: py_round_def)
  have r: "py_round P0 = 23" by (simp add: P0_def py_round_def)
  have "aqi_scan_f64 get_aqi_breakpoints_f64 (Finite c0) = Inr (Some 23)"
    unfolding get_aqi_breakpoints_f64_values
    using bounds w s d P S r by (simp add: float_of_int_def fsub_def)
  then have "calculate_aqi_f64 (Finite c0) = Inr 23"
    using ct k by (simp add: calculate_aqi_f64_unfold [OF mul])
  then show ?thesis by (simp only: c0)
qed

section \<open>The properties of the exact model, on doubles\<close>

text \<open>
  The degenerate guard, the boundary values, the worked example and the monotonicity on
  the first row were stated above in exact arithmetic. They hold in double arithmetic as
  well.
\<close>

lemma calculate_pm25_concentration_f64_degenerate:
  assumes "fle flow_rate (float_of_int 0) \<or> fle time_stop time_start"
  shows "calculate_pm25_concentration_f64 mass_initial mass_final flow_rate time_start time_stop
           = Inr (float_of_int 0)"
  using assms by (simp add: calculate_pm25_concentration_f64_def)

lemma aqi_row_f64_value:
  assumes lo: "0 \<le> lo" and gap: "lo + 1 \<le> hi" and hi: "hi \<le> 1000"
    and ct: "lo \<le> ct" "ct \<le> hi"
    and il: "0 \<le> il" and ih: "il < ih" "ih \<le> 500"
  shows "aqi_scan_f64 (((Finite lo, Finite hi), (il, ih)) # rest) (Finite ct)
         = Inr (Some (py_round (rnd (rnd (rnd (of_int (ih - il) / rnd (hi - lo)) * rnd (ct - lo))
                                       + of_int il))))"
proof -
  define D where "D = (of_int (ih - il) :: real)"
  define L where "L = (of_int il :: real)"
  define w where "w = rnd (hi - lo)"
  define slope where "slope = rnd (D / w)"
  define d where "d = rnd (ct - lo)"
  define P where "P = rnd (slope * d)"
  define S where "S = rnd (P + L)"
  have L: "0 \<le> L" "rnd L = L" using il ih by (simp_all add: L_def rnd_of_int)
  have D: "1 \<le> D" "D + L \<le> 500" using il ih by (simp_all add: D_def L_def)
  note facts = interpolation_reals [OF lo gap hi ct L D, folded w_def slope_def d_def P_def S_def]
  have w: "1 \<le> w" "w \<le> 1000" using facts(1) by simp_all
  have s: "0 \<le> slope" "slope \<le> 1000" using facts(2) by simp_all
  have d: "0 \<le> d" "d \<le> 1000" using facts(3) by simp_all
  have P: "0 \<le> P" "P \<le> 1000" using facts(4) by simp_all
  have e1: "fsub (Finite hi) (Finite lo) = Finite w"
    using lo gap hi by (simp add: fsub_def w_def fl_small)
  have "0 \<le> D / w" using D w by simp
  moreover have "D / w \<le> D / 1" using D w by (intro divide_left_mono) simp_all
  ultimately have "\<bar>D / w\<bar> \<le> 10000000" using D L by simp
  then have "fl (D / w) = Finite slope" unfolding slope_def by (rule fl_small)
  moreover have "fdiv (Finite D) (Finite w) = Inr (fl (D / w))" using w by simp
  moreover have "float_of_int (ih - il) = Finite D" by (simp only: float_of_int_def D_def)
  ultimately have e2: "fdiv (float_of_int (ih - il)) (Finite w) = Inr (Finite slope)"
    by (simp only:)
  have e3: "fsub (Finite ct) (Finite lo) = Finite d"
    using lo ct hi by (simp add: fsub_def d_def fl_small)
  have "0 \<le> slope * d" using s d by simp
  moreover have "slope * d \<le> 1000 * 1000" using s d by (intro mult_mono) simp_all
  ultimately have e4: "fmul (Finite slope) (Finite d) = Finite P"
    by (simp add: P_def fl_small)
  have "\<bar>P + L\<bar> \<le> 10000000" using P L D by simp
  then have "fl (P + L) = Finite S" unfolding S_def by (rule fl_small)
  moreover have "fadd (Finite P) (Finite L) = fl (P + L)" by simp
  moreover have "float_of_int il = Finite L" by (simp only: float_of_int_def L_def)
  ultimately have e5: "fadd (Finite P) (float_of_int il) = Finite S"
    by (simp only:)
  have "aqi_scan_f64 (((Finite lo, Finite hi), (il, ih)) # rest) (Finite ct)
           = Inr (Some (py_round S))"
    using ct by (simp add: e1 e2 e3 e4 e5 del: fdiv.simps fadd.simps fmul.simps)
  then show ?thesis
    by (simp only: S_def P_def d_def slope_def w_def D_def L_def)
qed

lemma first_row_input:
  assumes "0 \<le> r" and "r \<le> 12"
  shows "fmul (Finite r) (float_of_int 10) = Finite (rnd (r * 10))"
    and "0 \<le> rnd (r * 10)" and "rnd (r * 10) \<le> 120"
proof -
  from assms have "\<bar>r * 10\<bar> \<le> 10000000" by simp
  then show "fmul (Finite r) (float_of_int 10) = Finite (rnd (r * 10))"
    by (simp add: float_of_int_def fl_small)
  show "0 \<le> rnd (r * 10)" using assms by (intro rnd_nonneg) simp
  show "rnd (r * 10) \<le> 120" using assms by (intro rnd_le_numeral) simp_all
qed

lemma calculate_aqi_f64_first_tier:
  assumes "0 \<le> r" and "r \<le> 12"
  defines "ct \<equiv> rnd (of_int (math_trunc (rnd (r * 10))) / 10)"
  defines "a \<equiv> py_round (rnd (rnd (rnd (of_int (50 - 0) / rnd (12 - 0)) * rnd (ct - 0))
                            + of_int 0))"
  shows "calculate_aqi_f64 (Finite r) = Inr a"
    and "0 \<le> ct" and "ct \<le> 12" and "0 \<le> a" and "a \<le> 50"
proof -
  note inp = first_row_input [OF assms(1,2)]
  let ?k = "math_trunc (rnd (r * 10))"
  let ?rest = "tl get_aqi_breakpoints_f64"
  have k0: "0 \<le> ?k" using inp(2) by (simp add: math_trunc_def)
  have k1: "?k \<le> 120" using inp(2,3) by (simp add: math_trunc_def floor_le_iff)
  show c0: "0 \<le> ct" unfolding ct_def using k0 by (intro rnd_nonneg) simp
  have "of_int ?k / 10 \<le> (12 :: real)" using k1 by simp
  then show c1: "ct \<le> 12" unfolding ct_def by (intro rnd_le_numeral) simp_all
  have tbl: "get_aqi_breakpoints_f64 = ((Finite 0, Finite 12), (0, 50)) # ?rest"
    by (simp add: get_aqi_breakpoints_f64_values)
  have v: "aqi_scan_f64 (((Finite 0, Finite 12), (0, 50)) # ?rest) (Finite ct) = Inr (Some a)"
    unfolding a_def using c0 c1 by (intro aqi_row_f64_value) simp_all
  have "\<exists>b. aqi_scan_f64 (((Finite 0, Finite 12), (0, 50)) # ?rest) (Finite ct) = Inr (Some b)
             \<and> 0 \<le> b \<and> b \<le> 50 \<and> (ct = 12 \<longrightarrow> b = 50) \<and> (ct = 0 \<longrightarrow> b = 0)"
    using c0 c1 by (intro aqi_row_f64) simp_all
  with v show "0 \<le> a" and "a \<le> 50" by auto
  have "aqi_scan_f64 get_aqi_breakpoints_f64 (Finite ct) = Inr (Some a)"
    using v by (simp only: tbl [symmetric])
  then show "calculate_aqi_f64 (Finite r) = Inr a"
    unfolding calculate_aqi_f64_unfold [OF inp(1)] ct_def by simp
qed

lemma calculate_aqi_f64_first_tier_monotone:
  assumes "0 \<le> r1" and "r1 \<le> r2" and "r2 \<le> 12"
  shows "\<exists>a1 a2. calculate_aqi_f64 (Finite r1) = Inr a1 \<and> calculate_aqi_f64 (Finite r2) = Inr a2
           \<and> 0 \<le> a1 \<and> a1 \<le> 50 \<and> 0 \<le> a2 \<and> a2 \<le> 50 \<and> a1 \<le> a2"
proof -
  define ct1 where "ct1 = rnd (of_int (math_trunc (rnd (r1 * 10))) / 10)"
  define ct2 where "ct2 = rnd (of_int (math_trunc (rnd (r2 * 10))) / 10)"
  define slope where "slope = rnd (of_int (50 - 0) / rnd (12 - 0))"
  define S where "S = (\<lambda>ct. rnd (rnd (slope * rnd (ct - 0)) + of_int 0))"
  from assms have r1: "0 \<le> r1" "r1 \<le> 12" and r2: "0 \<le> r2" "r2 \<le> 12" by simp_all
  note t1 = calculate_aqi_f64_first_tier [OF r1, folded ct1_def slope_def]
  note t2 = calculate_aqi_f64_first_tier [OF r2, folded ct2_def slope_def]
  have "rnd (r1 * 10) \<le> rnd (r2 * 10)" using assms by (intro rnd_mono) simp
  then have "math_trunc (rnd (r1 * 10)) \<le> math_trunc (rnd (r2 * 10))" by (rule math_trunc_mono)
  then have "ct1 \<le> ct2" unfolding ct1_def ct2_def by (intro rnd_mono) simp
  then have "rnd (ct1 - 0) \<le> rnd (ct2 - 0)" by (intro rnd_mono) simp
  moreover have "0 \<le> slope" unfolding slope_def by (intro rnd_nonneg) (simp add: rnd_numeral)
  ultimately have "slope * rnd (ct1 - 0) \<le> slope * rnd (ct2 - 0)" by (intro mult_left_mono)
  then have "rnd (slope * rnd (ct1 - 0)) \<le> rnd (slope * rnd (ct2 - 0))" by (rule rnd_mono)
  then have "rnd (rnd (slope * rnd (ct1 - 0)) + of_int 0) \<le> rnd (rnd (slope * rnd (ct2 - 0)) + of_int 0)"
    by (intro rnd_mono) simp
  then have "py_round (rnd (rnd (slope * rnd (ct1 - 0)) + of_int 0))
             \<le> py_round (rnd (rnd (slope * rnd (ct2 - 0)) + of_int 0))"
    by (rule py_round_mono)
  with t1(1,4,5) t2(1,4,5) show ?thesis by blast
qed

lemma literal_gaps: "12 < rnd 12.1" "rnd 35.4 < rnd 35.5"
proof -
  have "12.1 * (1 - 2 powi (- 53)) \<le> rnd 12.1"
    by (rule rnd_lower_rel) (simp add: power_int_minus)
  moreover have "(12 :: real) < 12.1 * (1 - 2 powi (- 53))" by (simp add: power_int_minus)
  ultimately show "12 < rnd 12.1" by linarith
  have "rnd 35.4 \<le> 35.4 * (1 + 2 powi (- 53))"
    by (rule rnd_upper_rel) (simp add: power_int_minus)
  moreover have "35.5 * (1 - 2 powi (- 53)) \<le> rnd 35.5"
    by (rule rnd_lower_rel) (simp add: power_int_minus)
  moreover have "(35.4 :: real) * (1 + 2 powi (- 53)) < 35.5 * (1 - 2 powi (- 53))"
    by (simp add: power_int_minus)
  ultimately show "rnd 35.4 < rnd 35.5" by linarith
qed

lemma aqi_row_f64_top:
  assumes "0 \<le> lo" and "lo + 1 \<le> hi" and "hi \<le> 1000"
    and "0 \<le> il" and "il < ih" and "ih \<le> 500"
  shows "aqi_scan_f64 (((Finite lo, Finite hi), (il, ih)) # rest) (Finite hi) = Inr (Some ih)"
  using aqi_row_f64 [of lo hi hi il ih rest] assms by auto

lemma aqi_row_f64_bottom:
  assumes "0 \<le> lo" and "lo + 1 \<le> hi" and "hi \<le> 1000"
    and "0 \<le> il" and "il < ih" and "ih \<le> 500"
  shows "aqi_scan_f64 (((Finite lo, Finite hi), (il, ih)) # rest) (Finite lo) = Inr (Some il)"
  using aqi_row_f64 [of lo hi lo il ih rest] assms by auto

lemma aqi_scan_f64_row_ends:
  "aqi_scan_f64 get_aqi_breakpoints_f64 (Finite 12) = Inr (Some 50)"
  "aqi_scan_f64 get_aqi_breakpoints_f64 (Finite (rnd 12.1)) = Inr (Some 51)"
  "aqi_scan_f64 get_aqi_breakpoints_f64 (Finite (rnd 35.4)) = Inr (Some 100)"
  "aqi_scan_f64 get_aqi_breakpoints_f64 (Finite (rnd 35.5)) = Inr (Some 101)"
proof -
  note lits = breakpoint_literals literal_gaps
  show "aqi_scan_f64 get_aqi_breakpoints_f64 (Finite 12) = Inr (Some 50)"
    unfolding get_aqi_breakpoints_f64_values by (rule aqi_row_f64_top) simp_all
  have "aqi_scan_f64 get_aqi_breakpoints_f64 (Finite (rnd 12.1))
        = aqi_scan_f64 (tl get_aqi_breakpoints_f64) (Finite (rnd 12.1))"
    unfolding get_aqi_breakpoints_f64_values using lits
    by (simp del: fdiv.simps fadd.simps fmul.simps)
  also have "\<dots> = Inr (Some 51)"
    unfolding get_aqi_breakpoints_f64_values list.sel
    by (rule aqi_row_f64_bottom) (use lits in simp_all)
  finally show "aqi_scan_f64 get_aqi_breakpoints_f64 (Finite (rnd 12.1)) = Inr (Some 51)" .
  have "aqi_scan_f64 get_aqi_breakpoints_f64 (Finite (rnd 35.4))
        = aqi_scan_f64 (tl get_aqi_breakpoints_f64) (Finite (rnd 35.4))"
    unfolding get_aqi_breakpoints_f64_values using lits
    by (simp del: fdiv.simps fadd.simps fmul.simps)
  also have "\<dots> = Inr (Some 100)"
    unfolding get_aqi_breakpoints_f64_values list.sel
    by (rule aqi_row_f64_top) (use lits in simp_all)
  finally show "aqi_scan_f64 get_aqi_breakpoints_f64 (Finite (rnd 35.4)) = Inr (Some 100)" .
  have "aqi_scan_f64 get_aqi_breakpoints_f64 (Finite (rnd 35.5))
        = aqi_scan_f64 (tl (tl get_aqi_breakpoints_f64)) (Finite (rnd 35.5))"
    unfolding get_aqi_breakpoints_f64_values using lits
    by (simp del: fdiv.simps fadd.simps fmul.simps)
  also have "\<dots> = Inr (Some 101)"
    unfolding get_aqi_breakpoints_f64_values list.sel
    by (rule aqi_row_f64_bottom) (use lits in simp_all)
  finally show "aqi_scan_f64 get_aqi_breakpoints_f64 (Finite (rnd 35.5)) = Inr (Some 101)" .
qed

text \<open>
  The four boundary inputs: each literal times ten is the integer again, then the tenth of
  that integer is the literal again, an end of a row.
\<close>

lemma boundary_products:
  "fmul (lit 12.0) (float_of_int 10) = Finite 120"
  "fmul (lit 12.1) (float_of_int 10) = Finite 121"
  "fmul (lit 35.4) (float_of_int 10) = Finite 354"
  "fmul (lit 35.5) (float_of_int 10) = Finite 355"
proof -
  have a: "lit 12.0 = Finite 12" using fl_of_int [of 12] by (simp add: lit_def)
  have "fl (12 * 10) = Finite 120" using fl_of_int [of 120] by simp
  with a show "fmul (lit 12.0) (float_of_int 10) = Finite 120" by (simp add: float_of_int_def)
  define c1 :: real where "c1 = of_int 6811694436397875 * 2 powi (3 - 52)"
  have b: "lit 12.1 = Finite c1"
    unfolding c1_def lit_def by (rule fl_eval) (simp_all add: py_round_def)
  have "fl (c1 * 10) = Finite (of_int 8514618045497344 * 2 powi (6 - 52))"
    by (rule fl_eval) (simp_all add: c1_def py_round_def)
  then have "fl (c1 * 10) = Finite 121" by simp
  with b show "fmul (lit 12.1) (float_of_int 10) = Finite 121" by (simp add: float_of_int_def)
  define c2 :: real where "c2 = of_int 4982107087778611 * 2 powi (5 - 52)"
  have c: "lit 35.4 = Finite c2"
    unfolding c2_def lit_def by (rule fl_eval) (simp_all add: py_round_def)
  have "fl (c2 * 10) = Finite (of_int 6227633859723264 * 2 powi (8 - 52))"
    by (rule fl_eval) (simp_all add: c2_def py_round_def)
  then have "fl (c2 * 10) = Finite 354" by simp
  with c show "fmul (lit 35.4) (float_of_int 10) = Finite 354" by (simp add: float_of_int_def)
  define c3 :: real where "c3 = of_int 4996180836614144 * 2 powi (5 - 52)"
  have d: "lit 35.5 = Finite c3"
    unfolding c3_def lit_def by (rule fl_eval) (simp_all add: py_round_def)
  have "fl (c3 * 10) = Finite (of_int 6245226045767680 * 2 powi (8 - 52))"
    by (rule fl_eval) (simp_all add: c3_def py_round_def)
  then have "fl (c3 * 10) = Finite 355" by simp
  with d show "fmul (lit 35.5) (float_of_int 10) = Finite 355" by (simp add: float_of_int_def)
qed

lemma calculate_aqi_f64_boundaries:
  "calculate_aqi_f64 (lit 12.0) = Inr 50" "calculate_aqi_f64 (lit 12.1) = Inr 51"
  "calculate_aqi_f64 (lit 35.4) = Inr 100" "calculate_aqi_f64 (lit 35.5) = Inr 101"
proof -
  have k: "math_trunc 120 = 120" "math_trunc 121 = 121" "math_trunc 354 = 354"
    "math_trunc 355 = 355"
    by (simp_all add: math_trunc_def)
  show "calculate_aqi_f64 (lit 12.0) = Inr 50"
    by (subst calculate_aqi_f64_unfold [OF boundary_products(1)])
      (use aqi_scan_f64_row_ends(1) k in \<open>simp add: rnd_numeral\<close>)
  show "calculate_aqi_f64 (lit 12.1) = Inr 51"
    by (subst calculate_aqi_f64_unfold [OF boundary_products(2)])
      (use aqi_scan_f64_row_ends(2) k in \<open>simp add: rnd_numeral\<close>)
  show "calculate_aqi_f64 (lit 35.4) = Inr 100"
    by (subst calculate_aqi_f64_unfold [OF boundary_products(3)])
      (use aqi_scan_f64_row_ends(3) k in \<open>simp add: rnd_numeral\<close>)
  show "calculate_aqi_f64 (lit 35.5) = Inr 101"
    by (subst calculate_aqi_f64_unfold [OF boundary_products(4)])
      (use aqi_scan_f64_row_ends(4) k in \<open>simp add: rnd_numeral\<close>)
qed

text \<open>
  The worked example: the scan at the double nearest to 103.9 passes the first three rows and
  stops on the fourth, where each operation of the interpolation is rounded; the sum is the
  double nearest to 175.99, which rounds to 176, as on the reals.
\<close>

lemma aqi_scan_f64_worked_example:
  "aqi_scan_f64 get_aqi_breakpoints_f64 (Finite (rnd (1039 / 10))) = Inr (Some 176)"
proof -
  define ct :: real where "ct = of_int 7311312520059290 * 2 powi (6 - 52)"
  define lo :: real where "lo = of_int 7810930603720704 * 2 powi (5 - 52)"
  define hi :: real where "hi = of_int 5291729562160333 * 2 powi (7 - 52)"
  define u :: real where "u = of_int 7796856854885171 * 2 powi (5 - 52)"
  define w :: real where "w = of_int 6677993822460314 * 2 powi (6 - 52)"
  define s :: real where "s = of_int 4650714051446877 * 2 powi (- 1 - 52)"
  define d :: real where "d = of_int 6811694436397876 * 2 powi (5 - 52)"
  define P :: real where "P = of_int 7034205002813402 * 2 powi (4 - 52)"
  define S :: real where "S = of_int 6192115810765307 * 2 powi (7 - 52)"
  have ct: "rnd (1039 / 10) = ct"
    unfolding ct_def by (rule rnd_eval) (simp_all add: py_round_def)
  have lo: "rnd 55.5 = lo"
    unfolding lo_def by (rule rnd_eval) (simp_all add: py_round_def)
  have hi: "rnd 150.4 = hi"
    unfolding hi_def by (rule rnd_eval) (simp_all add: py_round_def)
  have u: "rnd 55.4 = u"
    unfolding u_def by (rule rnd_eval) (simp_all add: py_round_def)
  have w: "rnd (hi - lo) = w"
    unfolding w_def by (rule rnd_eval) (simp_all add: hi_def lo_def py_round_def)
  have s: "rnd (of_int (200 - 151) / w) = s"
    unfolding s_def by (rule rnd_eval) (simp_all add: w_def py_round_def)
  have d: "rnd (ct - lo) = d"
    unfolding d_def by (rule rnd_eval) (simp_all add: ct_def lo_def py_round_def)
  have P: "rnd (s * d) = P"
    unfolding P_def by (rule rnd_eval) (simp_all add: s_def d_def py_round_def)
  have S: "rnd (P + of_int 151) = S"
    unfolding S_def by (rule rnd_eval) (simp_all add: P_def py_round_def)
  have r: "py_round S = 176" by (simp add: S_def py_round_def)
  have order: "12 < ct" "u < ct" "lo \<le> ct" "ct \<le> hi" "0 \<le> lo" "lo + 1 \<le> hi" "hi \<le> 1000"
    by (simp_all add: ct_def u_def lo_def hi_def)
  have below: "rnd 12.1 \<le> rnd 35.4" "rnd 35.4 \<le> u" "rnd 35.5 \<le> u"
    using breakpoint_literals u by simp_all
  have skip: "aqi_scan_f64 get_aqi_breakpoints_f64 (Finite ct)
        = aqi_scan_f64 (tl (tl (tl get_aqi_breakpoints_f64))) (Finite ct)"
    unfolding get_aqi_breakpoints_f64_values using order below u
    by (simp del: fdiv.simps fadd.simps fmul.simps)
  have "aqi_scan_f64 (tl (tl (tl get_aqi_breakpoints_f64))) (Finite ct)
        = Inr (Some (py_round (rnd (rnd (rnd (of_int (200 - 151) / rnd (hi - lo)) * rnd (ct - lo))
                                       + of_int 151))))"
    unfolding get_aqi_breakpoints_f64_values list.sel lo hi
    by (rule aqi_row_f64_value) (use order in simp_all)
  also have "\<dots> = Inr (Some 176)"
    by (simp only: w s d P S r)
  finally show ?thesis using skip by (simp only: ct)
qed

lemma calculate_aqi_f64_worked_example:
  "calculate_aqi_f64 (lit 103.96) = Inr 176"
  "calculate_aqi_f64 (Finite (of_int 7315446625256155 * 2 powi (- 46))) = Inr 176"
proof -
  define c :: real where "c = of_int 7315534644709949 * 2 powi (6 - 52)"
  define x :: real where "x = of_int 4572209152943718 * 2 powi (10 - 52)"
  define c' :: real where "c' = of_int 7315446625256155 * 2 powi (- 46)"
  define x' :: real where "x' = of_int 4572154140785097 * 2 powi (10 - 52)"
  have c: "lit 103.96 = Finite c"
    unfolding c_def lit_def by (rule fl_eval) (simp_all add: py_round_def)
  have "fl (c * 10) = Finite x"
    unfolding x_def by (rule fl_eval) (simp_all add: c_def py_round_def)
  then have mul: "fmul (Finite c) (float_of_int 10) = Finite x"
    by (simp add: float_of_int_def)
  have k: "math_trunc x = 1039" by (simp add: x_def math_trunc_def)
  have "calculate_aqi_f64 (Finite c) = Inr 176"
    by (subst calculate_aqi_f64_unfold [OF mul])
      (simp only: k of_int_numeral aqi_scan_f64_worked_example sum.case option.case)
  then show "calculate_aqi_f64 (lit 103.96) = Inr 176" by (simp only: c)
  have "fl (c' * 10) = Finite x'"
    unfolding x'_def by (rule fl_eval) (simp_all add: c'_def py_round_def)
  then have mul': "fmul (Finite c') (float_of_int 10) = Finite x'"
    by (simp add: float_of_int_def)
  have k': "math_trunc x' = 1039" by (simp add: x'_def math_trunc_def)
  have "calculate_aqi_f64 (Finite c') = Inr 176"
    by (subst calculate_aqi_f64_unfold [OF mul'])
      (simp only: k' of_int_numeral aqi_scan_f64_worked_example sum.case option.case)
  then show "calculate_aqi_f64 (Finite (of_int 7315446625256155 * 2 powi (- 46))) = Inr 176"
    by (simp only: c'_def)
qed

end
